theory Spec2Isabelle
  imports Main "HOL-Library.Multiset"
begin

section \<open>Python values, exceptions and events\<close>

text \<open>
  Values decoded from JSON (\<^verbatim>\<open>json.loads\<close>) and passed around as Python objects.
  A \<^verbatim>\<open>dict\<close> is an association list with the first binding of a key being the
  one looked up; floats are left out (no operation of the modelled code inspects one).
  Strings are lists of code points below 256.
\<close>

datatype json =
    JNull
  | JBool bool
  | JInt int
  | JStr string
  | JArr "json list"
  | JObj "(string \<times> json) list"

text \<open>
  The exception classes the handlers of the code tell apart:
  \<^verbatim>\<open>asyncio.TimeoutError\<close>, \<^verbatim>\<open>asyncssh.Error\<close>, and every other subclass
  of \<^verbatim>\<open>Exception\<close>. The string is \<^verbatim>\<open>str(e)\<close>.
\<close>

datatype exn = TimeoutError string | SSHError string | OtherError string

fun str_exn :: "exn \<Rightarrow> string" where
  "str_exn (TimeoutError m) = m"
| "str_exn (SSHError m) = m"
| "str_exn (OtherError m) = m"

text \<open>Python truthiness, as used by \<^verbatim>\<open>if x:\<close> and \<^verbatim>\<open>x or y\<close>.\<close>

fun truthy :: "json \<Rightarrow> bool" where
  "truthy JNull = False"
| "truthy (JBool b) = b"
| "truthy (JInt i) = (i \<noteq> 0)"
| "truthy (JStr s) = (s \<noteq> [])"
| "truthy (JArr xs) = (xs \<noteq> [])"
| "truthy (JObj kvs) = (kvs \<noteq> [])"

text \<open>\<^verbatim>\<open>d.get(k, dflt)\<close> on a dict.\<close>

definition dict_get :: "(string \<times> json) list \<Rightarrow> string \<Rightarrow> json \<Rightarrow> json" where
  "dict_get d k dflt = (case map_of d k of None \<Rightarrow> dflt | Some v \<Rightarrow> v)"

text \<open>
  The message of an event is the f-string \<^verbatim>\<open>generate_execution_narrative\<close>
  selects; it is kept as the name of the template together with the value
  interpolated into it (several templates start with a character outside ASCII).
\<close>

datatype narrative =
    Connecting json
  | Connected json
  | Executing json
  | Output_received
  | Analyzing
  | Value_extracted json
  | Condition_checking json
  | Condition_met json
  | Condition_not_met json
  | Incident_raised json
  | Completed
  | Failed json
  | Other_step string

definition generate_execution_narrative :: "string \<Rightarrow> (string \<times> json) list \<Rightarrow> narrative" where
  "generate_execution_narrative step details =
     (let node_name = dict_get details ''node'' (JStr ''node'');
          command = dict_get details ''command'' (JStr ''...'');
          val = dict_get details ''value'' (JStr ''N/A'');
          condition = dict_get details ''condition'' (JStr '''');
          message = dict_get details ''message'' (JStr '''');
          error = dict_get details ''error'' (JStr ''Unknown error'')
      in if step = ''connecting'' then Connecting node_name
         else if step = ''connected'' then Connected node_name
         else if step = ''executing'' then Executing command
         else if step = ''output_received'' then Output_received
         else if step = ''analyzing'' then Analyzing
         else if step = ''value_extracted'' then Value_extracted val
         else if step = ''condition_checking'' then Condition_checking condition
         else if step = ''condition_met''
           then Condition_met (if truthy message then message else JStr ''threshold exceeded'')
         else if step = ''condition_not_met''
           then Condition_not_met (if truthy message then message else JStr ''within normal range'')
         else if step = ''incident_raised'' then Incident_raised message
         else if step = ''completed'' then Completed
         else if step = ''failed'' then Failed error
         else Other_step step)"

datatype event_type = Step | Incident | Error | Complete

datatype status = Success | Warning

text \<open>
  A timeline event is a dict with the keys \<^verbatim>\<open>type\<close> and \<^verbatim>\<open>message\<close> and,
  depending on the event, \<^verbatim>\<open>status\<close>, \<^verbatim>\<open>severity\<close>, \<^verbatim>\<open>node\<close>,
  \<^verbatim>\<open>details\<close>; \<open>None\<close> is an absent key.
\<close>

record event =
  ev_type :: event_type
  ev_message :: narrative
  ev_status :: "status option"
  ev_severity :: "json option"
  ev_node :: "json option"
  ev_details :: "json option"

definition step_event :: "narrative \<Rightarrow> status option \<Rightarrow> event" where
  "step_event m st =
     \<lparr>ev_type = Step, ev_message = m, ev_status = st,
      ev_severity = None, ev_node = None, ev_details = None\<rparr>"

definition incident_event :: "narrative \<Rightarrow> json \<Rightarrow> json \<Rightarrow> json \<Rightarrow> event" where
  "incident_event m sev nd det =
     \<lparr>ev_type = Incident, ev_message = m, ev_status = None,
      ev_severity = Some sev, ev_node = Some nd, ev_details = Some det\<rparr>"

definition error_event :: "narrative \<Rightarrow> event" where
  "error_event m =
     \<lparr>ev_type = Error, ev_message = m, ev_status = None,
      ev_severity = None, ev_node = None, ev_details = None\<rparr>"

definition complete_event :: event where
  "complete_event =
     \<lparr>ev_type = Complete, ev_message = generate_execution_narrative ''completed'' [],
      ev_status = None, ev_severity = None, ev_node = None, ev_details = None\<rparr>"

section \<open>The output analyzer (chat\_engine.py)\<close>

text \<open>Whitespace as \<^verbatim>\<open>str.strip()\<close> and the regex class \<^verbatim>\<open>\s\<close> see it.\<close>

definition is_space :: "char \<Rightarrow> bool" where
  "is_space c = (of_char c \<in> {9, 10, 11, 12, 13, 28, 29, 30, 31, 32, 133, 160 :: nat})"

definition py_strip :: "string \<Rightarrow> string" where
  "py_strip s = rev (dropWhile is_space (rev (dropWhile is_space s)))"

definition starts_with :: "string \<Rightarrow> string \<Rightarrow> bool" where
  "starts_with s p = (take (length p) s = p)"

definition ends_with :: "string \<Rightarrow> string \<Rightarrow> bool" where
  "ends_with s p = (length p \<le> length s \<and> drop (length s - length p) s = p)"

text \<open>\<^verbatim>\<open>re.sub(r'^```json?\s*', '', content)\<close>\<close>

definition strip_leading_fence :: "string \<Rightarrow> string" where
  "strip_leading_fence s =
     (if starts_with s ''```jso''
      then (let r = drop 6 s;
                r' = (if starts_with r ''n'' then drop 1 r else r)
            in dropWhile is_space r')
      else s)"

text \<open>
  \<^verbatim>\<open>re.sub(r'\s*```$', '', content)\<close>: \<^verbatim>\<open>$\<close> matches at the end of the string
  and just before a newline that ends the string.
\<close>

definition strip_trailing_fence :: "string \<Rightarrow> string" where
  "strip_trailing_fence s =
     (if ends_with s ''```''
      then rev (dropWhile is_space (drop 3 (rev s)))
      else if ends_with s (''```'' @ [CHR 0x0A])
      then rev (dropWhile is_space (drop 4 (rev s))) @ [CHR 0x0A]
      else s)"

text \<open>
  The collaborators of the analyzer are inputs of the model: the outcome of
  \<^verbatim>\<open>client.chat.completions.create\<close> for the prompt (an exception, or the
  \<^verbatim>\<open>message.content\<close> of each choice, \<open>None\<close> for a null content), and
  \<^verbatim>\<open>json.loads\<close> as a function that raises or returns the decoded value.
\<close>

type_synonym completion = "exn + string option list"

definition degraded_analysis :: "exn \<Rightarrow> json" where
  "degraded_analysis e =
     JObj [(''extracted_value'', JStr ''unknown''),
           (''condition_met'', JBool False),
           (''summary'', JStr (''Could not analyze: '' @ str_exn e)),
           (''severity'', JStr ''info'')]"

text \<open>The body of the \<^verbatim>\<open>try\<close> block.\<close>

definition analyze_body :: "(string \<Rightarrow> exn + json) \<Rightarrow> completion \<Rightarrow> exn + json" where
  "analyze_body json_loads response =
     (case response of
        Inl e \<Rightarrow> Inl e
      | Inr [] \<Rightarrow> Inl (OtherError ''list index out of range'')
      | Inr (None # _) \<Rightarrow> Inl (OtherError ''NoneType object has no attribute strip'')
      | Inr (Some c # _) \<Rightarrow>
          (let content = py_strip c;
               content' = (if starts_with content ''```''
                           then strip_trailing_fence (strip_leading_fence content)
                           else content)
           in json_loads content'))"

text \<open>
  \<^verbatim>\<open>analyze_output_with_llm(output, extraction_hint, condition)\<close>. The three
  arguments only enter the prompt, whose reply is \<open>response\<close>. The result is
  \<open>Inl\<close> when an exception leaves the function.
\<close>

definition analyze_output_with_llm ::
  "(string \<Rightarrow> exn + json) \<Rightarrow> completion \<Rightarrow> string \<Rightarrow> json \<Rightarrow> string \<Rightarrow> exn + json" where
  "analyze_output_with_llm json_loads response output extraction_hint condition =
     (case analyze_body json_loads response of
        Inr v \<Rightarrow> Inr v
      | Inl e \<Rightarrow> Inr (degraded_analysis e))"

section \<open>The node worker (chat\_api.py, process\_node)\<close>

record completed_process =
  exit_status :: "int option"
  p_stdout :: string
  p_stderr :: string

text \<open>
  What \<^verbatim>\<open>conn.run(cmd, check=False)\<close> does: it returns a result after some
  seconds, raises after some seconds, or never returns.
\<close>

datatype run_outcome =
    Finishes nat completed_process
  | RunRaises nat exn
  | NeverReturns

text \<open>
  The world one worker sees: the outcome of building the connect options and
  of \<^verbatim>\<open>asyncssh.connect\<close> for (host, username, credential), the outcome of
  \<^verbatim>\<open>conn.run\<close> for the k-th command, the completion returned to the k-th
  analysis, and an exception raised on leaving the \<^verbatim>\<open>async with\<close> block.
\<close>

record node_env =
  connect_result :: "json \<times> json \<times> json \<Rightarrow> exn option"
  run_result :: "nat \<Rightarrow> json \<Rightarrow> run_outcome"
  llm_result :: "nat \<Rightarrow> completion"
  close_result :: "exn option"

text \<open>
  How a coroutine ends: it returns, an exception leaves it, or it waits forever.
\<close>

datatype fate = Returned | Raised exn | Hung

text \<open>One iteration of \<^verbatim>\<open>for cmd_config in commands\<close>.\<close>

definition command_step ::
  "(string \<Rightarrow> exn + json) \<Rightarrow> string \<Rightarrow> node_env \<Rightarrow> json \<Rightarrow> nat \<Rightarrow> json \<Rightarrow> event list \<times> fate" where
  "command_step json_loads condition env node_name k cmd_config =
     (case cmd_config of
        JObj cc \<Rightarrow>
          (let cmd_str = dict_get cc ''cmd'' JNull;
               cmd_logic = dict_get cc ''logic'' (JStr '''');
               e_exec = step_event (generate_execution_narrative ''executing''
                          [(''command'', cmd_str), (''node'', node_name)]) None
           in case run_result env k cmd_str of
                NeverReturns \<Rightarrow> ([e_exec], Hung)
              | RunRaises d e \<Rightarrow> ([e_exec], Raised e)
              | Finishes d result \<Rightarrow>
                  (let e_out = step_event (generate_execution_narrative ''output_received''
                                 [(''node'', node_name)]) (Some Success);
                       e_ana = step_event (generate_execution_narrative ''analyzing''
                                 [(''node'', node_name)]) None
                   in case analyze_output_with_llm json_loads (llm_result env k)
                             (p_stdout result) cmd_logic condition of
                        Inl e \<Rightarrow> ([e_exec, e_out, e_ana], Raised e)
                      | Inr (JObj a) \<Rightarrow>
                          (if truthy (dict_get a ''condition_met'' JNull)
                           then ([e_exec, e_out, e_ana,
                                  step_event (generate_execution_narrative ''condition_met''
                                    [(''message'', dict_get a ''summary'' JNull), (''node'', node_name)])
                                    (Some Warning),
                                  incident_event (generate_execution_narrative ''incident_raised''
                                    [(''message'', dict_get a ''summary'' JNull)])
                                    (dict_get a ''severity'' JNull) node_name (JObj a)], Returned)
                           else ([e_exec, e_out, e_ana,
                                  step_event (generate_execution_narrative ''condition_not_met''
                                    [(''message'', dict_get a ''summary'' JNull), (''node'', node_name)])
                                    (Some Success)], Returned))
                      | Inr _ \<Rightarrow>
                          ([e_exec, e_out, e_ana], Raised (OtherError ''object has no attribute get''))))
      | _ \<Rightarrow> ([], Raised (OtherError ''object has no attribute get'')))"

text \<open>The loop over the commands: it stops at the first iteration that does not return.\<close>

fun run_commands ::
  "(string \<Rightarrow> exn + json) \<Rightarrow> string \<Rightarrow> node_env \<Rightarrow> json \<Rightarrow> nat \<Rightarrow> json list \<Rightarrow> event list \<times> fate" where
  "run_commands json_loads condition env node_name k [] = ([], Returned)"
| "run_commands json_loads condition env node_name k (cmd_config # rest) =
     (case command_step json_loads condition env node_name k cmd_config of
        (es, Returned) \<Rightarrow>
          (case run_commands json_loads condition env node_name (Suc k) rest of
             (es', f) \<Rightarrow> (es @ es', f))
      | (es, f) \<Rightarrow> (es, f))"

text \<open>
  The credential of a node: the inline password, or the stored credential of a
  known node of that name. The map \<open>known\<close> is the dict \<^verbatim>\<open>get_known_nodes()\<close>
  returns (the database read is taken to succeed).
  \<^verbatim>\<open>node_name in known_nodes\<close> hashes the name, which fails for a list or a dict.
\<close>

type_synonym known_nodes = "string \<rightharpoonup> (string \<times> json) list"

definition node_credential :: "known_nodes \<Rightarrow> (string \<times> json) list \<Rightarrow> json \<Rightarrow> exn + json" where
  "node_credential known auth node_name =
     (if dict_get auth ''type'' JNull = JStr ''password''
      then Inr (dict_get auth ''password'' JNull)
      else (case node_name of
              JStr s \<Rightarrow>
                (case known s of
                   Some cfg \<Rightarrow> Inr (dict_get cfg ''credential'' JNull)
                 | None \<Rightarrow> Inr JNull)
            | JArr _ \<Rightarrow> Inl (OtherError ''unhashable type: list'')
            | JObj _ \<Rightarrow> Inl (OtherError ''unhashable type: dict'')
            | _ \<Rightarrow> Inr JNull))"

text \<open>
  \<^verbatim>\<open>if credential: if "-----BEGIN" in credential\<close> raises a TypeError for a
  truthy credential that is a number or a boolean.
\<close>

definition credential_check :: "json \<Rightarrow> exn option" where
  "credential_check credential =
     (case credential of
        JInt i \<Rightarrow> (if i \<noteq> 0 then Some (OtherError ''argument of type int is not iterable'') else None)
      | JBool b \<Rightarrow> (if b then Some (OtherError ''argument of type bool is not iterable'') else None)
      | _ \<Rightarrow> None)"

text \<open>\<^verbatim>\<open>rule.condition or "Check for errors"\<close>\<close>

definition str_or :: "string option \<Rightarrow> string \<Rightarrow> string" where
  "str_or s dflt = (case s of None \<Rightarrow> dflt | Some v \<Rightarrow> (if v = [] then dflt else v))"

text \<open>The body of the \<^verbatim>\<open>try\<close> block of \<^verbatim>\<open>process_node\<close>.\<close>

definition try_block ::
  "(string \<Rightarrow> exn + json) \<Rightarrow> string option \<Rightarrow> node_env \<Rightarrow> json \<Rightarrow> json \<Rightarrow> json \<Rightarrow> json \<Rightarrow>
   json list \<Rightarrow> event list \<times> fate" where
  "try_block json_loads rule_condition env node_name hostname username credential commands =
     (let e_conn = step_event (generate_execution_narrative ''connecting'' [(''node'', node_name)]) None
      in case credential_check credential of
           Some e \<Rightarrow> ([e_conn], Raised e)
         | None \<Rightarrow>
             (case connect_result env (hostname, username, credential) of
                Some e \<Rightarrow> ([e_conn], Raised e)
              | None \<Rightarrow>
                  (let e_ok = step_event (generate_execution_narrative ''connected''
                                [(''node'', node_name)]) (Some Success)
                   in case run_commands json_loads (str_or rule_condition ''Check for errors'')
                             env node_name 0 commands of
                        (es, Hung) \<Rightarrow> (e_conn # e_ok # es, Hung)
                      | (es, f) \<Rightarrow>
                          (case close_result env of
                             Some e \<Rightarrow> (e_conn # e_ok # es, Raised e)
                           | None \<Rightarrow> (e_conn # e_ok # es, f)))))"

text \<open>\<^verbatim>\<open>try: ... except Exception as e: await queue.put({"type": "error", ...})\<close>\<close>

definition try_except ::
  "(string \<Rightarrow> exn + json) \<Rightarrow> string option \<Rightarrow> node_env \<Rightarrow> json \<Rightarrow> json \<Rightarrow> json \<Rightarrow> json \<Rightarrow>
   json list \<Rightarrow> event list \<times> fate" where
  "try_except json_loads rule_condition env node_name hostname username credential commands =
     (case try_block json_loads rule_condition env node_name hostname username credential commands of
        (es, Raised e) \<Rightarrow>
          (es @ [error_event (generate_execution_narrative ''failed''
                   [(''error'', JStr (str_exn e)), (''node'', node_name)])], Returned)
      | (es, f) \<Rightarrow> (es, f))"

text \<open>
  The statements of \<^verbatim>\<open>process_node\<close> before its \<^verbatim>\<open>try\<close>: node name, host,
  user name and credential, or the exception one of the \<^verbatim>\<open>.get\<close> calls raises
  on a value that is not a dict.
\<close>

definition node_setup :: "known_nodes \<Rightarrow> json \<Rightarrow> exn + (json \<times> json \<times> json \<times> json)" where
  "node_setup known node_config =
     (case node_config of
        JObj nc \<Rightarrow>
          (let node_name = dict_get nc ''name'' (dict_get nc ''hostname'' (JStr ''unknown''));
               hostname = dict_get nc ''hostname'' JNull
           in case dict_get nc ''auth'' (JObj []) of
                JObj auth \<Rightarrow>
                  (let username = dict_get auth ''username'' (JStr ''ubuntu'')
                   in case node_credential known auth node_name of
                        Inl e \<Rightarrow> Inl e
                      | Inr credential \<Rightarrow> Inr (node_name, hostname, username, credential))
              | _ \<Rightarrow> Inl (OtherError ''object has no attribute get''))
      | _ \<Rightarrow> Inl (OtherError ''object has no attribute get''))"

text \<open>
  \<^verbatim>\<open>process_node(node_config, commands)\<close>: the events it puts on the queue, in
  order, and how the coroutine ends.
\<close>

definition process_node ::
  "(string \<Rightarrow> exn + json) \<Rightarrow> string option \<Rightarrow> known_nodes \<Rightarrow> node_env \<Rightarrow> json \<Rightarrow> json list \<Rightarrow>
   event list \<times> fate" where
  "process_node json_loads rule_condition known env node_config commands =
     (case node_setup known node_config of
        Inl e \<Rightarrow> ([], Raised e)
      | Inr (node_name, hostname, username, credential) \<Rightarrow>
          try_except json_loads rule_condition env node_name hostname username credential commands)"

section \<open>The orchestrator (chat\_api.py, stream\_execution)\<close>

text \<open>
  \<^verbatim>\<open>sequential_runner\<close>: one coroutine that awaits \<^verbatim>\<open>process_node\<close> for each node
  in list order; \<open>envs i\<close> is the world of the node at position \<open>i\<close>.
\<close>

fun sequential_runner ::
  "(string \<Rightarrow> exn + json) \<Rightarrow> string option \<Rightarrow> known_nodes \<Rightarrow> (nat \<Rightarrow> node_env) \<Rightarrow> json list \<Rightarrow>
   nat \<Rightarrow> json list \<Rightarrow> event list \<times> fate" where
  "sequential_runner json_loads rule_condition known envs commands i [] = ([], Returned)"
| "sequential_runner json_loads rule_condition known envs commands i (node # rest) =
     (case process_node json_loads rule_condition known (envs i) node commands of
        (es, Returned) \<Rightarrow>
          (case sequential_runner json_loads rule_condition known envs commands (Suc i) rest of
             (es', f) \<Rightarrow> (es @ es', f))
      | (es, f) \<Rightarrow> (es, f))"

text \<open>
  A task is the list of events its coroutine has still to put on the queue and
  the way the coroutine ends after the last one. \<^verbatim>\<open>t.done()\<close> holds once the
  coroutine has returned or raised.
\<close>

type_synonym task = "event list \<times> fate"

definition task_done :: "task \<Rightarrow> bool" where
  "task_done t = (fst t = [] \<and> snd t \<noteq> Hung)"

definition spawn_tasks ::
  "(string \<Rightarrow> exn + json) \<Rightarrow> string option \<Rightarrow> known_nodes \<Rightarrow> (nat \<Rightarrow> node_env) \<Rightarrow> string \<Rightarrow>
   json list \<Rightarrow> json list \<Rightarrow> task list" where
  "spawn_tasks json_loads rule_condition known envs execution_mode nodes_config commands_config =
     (if execution_mode = ''parallel''
      then map (\<lambda>(i, node). process_node json_loads rule_condition known (envs i) node commands_config)
             (enumerate 0 nodes_config)
      else [sequential_runner json_loads rule_condition known envs commands_config 0 nodes_config])"

text \<open>
  The state of one run: the queue, the tasks, and the variables of the consumer
  loop (\<^verbatim>\<open>finished_tasks\<close>, \<^verbatim>\<open>timeline\<close>, and the events yielded so far).
\<close>

record run_state =
  queue :: "event list"
  tasks :: "task list"
  finished_tasks :: nat
  timeline :: "event list"
  yielded :: "event list"

definition init_state :: "task list \<Rightarrow> run_state" where
  "init_state ts = \<lparr>queue = [], tasks = ts, finished_tasks = 0, timeline = [], yielded = []\<rparr>"

text \<open>
  The event loop interleaves the tasks with the consumer. A schedule lists what
  happens next: task \<open>i\<close> puts its next event; the consumer's
  \<^verbatim>\<open>wait_for(queue.get(), 0.5)\<close> returns the head of the queue; or it times out
  and the consumer counts the finished tasks. An action that is not possible in
  the state changes nothing.
\<close>

datatype action = Put nat | Get | Timeout

fun step :: "action \<Rightarrow> run_state \<Rightarrow> run_state" where
  "step (Put i) s =
     (if i < length (tasks s)
      then (case tasks s ! i of
              (e # es, f) \<Rightarrow> s\<lparr>queue := queue s @ [e], tasks := (tasks s)[i := (es, f)]\<rparr>
            | ([], f) \<Rightarrow> s)
      else s)"
| "step Get s =
     (case queue s of
        [] \<Rightarrow> s
      | e # q \<Rightarrow>
          s\<lparr>queue := q,
            timeline := (if ev_type e = Step then timeline s @ [e] else timeline s),
            yielded := yielded s @ [e]\<rparr>)"
| "step Timeout s = s\<lparr>finished_tasks := length (filter task_done (tasks s))\<rparr>"

text \<open>
  \<^verbatim>\<open>while finished_tasks < len(tasks)\<close>: \<open>None\<close> when the loop is still running
  at the end of the schedule.
\<close>

fun consumer_loop :: "action list \<Rightarrow> run_state \<Rightarrow> run_state option" where
  "consumer_loop [] s = (if finished_tasks s < length (tasks s) then None else Some s)"
| "consumer_loop (a # sch) s =
     (if finished_tasks s < length (tasks s) then consumer_loop sch (step a s) else Some s)"

text \<open>
  \<^verbatim>\<open>while not queue.empty()\<close>: every task is done by now, so the queue only
  shrinks; each remaining event is appended to the timeline and yielded.
\<close>

definition drain :: "run_state \<Rightarrow> run_state" where
  "drain s = s\<lparr>queue := [], timeline := timeline s @ queue s, yielded := yielded s @ queue s\<rparr>"

datatype rule_status = CREATED | EXECUTING | COMPLETED | FAILED

record automation_rule =
  nodes_json :: "json list"
  commands_json :: "json list"
  command :: "string option"
  extraction_hint :: "string option"
  condition :: "string option"
  execution_mode :: "string option"

record rule_execution =
  rule_id :: nat
  status :: rule_status
  timeline_json :: "event list"
  completed :: bool

record database =
  rules :: "nat \<rightharpoonup> automation_rule"
  executions :: "nat \<rightharpoonup> rule_execution"
  next_id :: nat

text \<open>
  \<^verbatim>\<open>execute_rule(rule_id)\<close>: HTTP 404 for an unknown rule, otherwise a new
  execution row and its id.
\<close>

definition execute_rule :: "nat \<Rightarrow> database \<Rightarrow> string + (nat \<times> database)" where
  "execute_rule rid db =
     (case rules db rid of
        None \<Rightarrow> Inl ''Rule not found''
      | Some rule \<Rightarrow>
          Inr (next_id db,
               db\<lparr>executions := (executions db)(next_id db \<mapsto>
                     \<lparr>rule_id = rid, status = EXECUTING, timeline_json = [], completed = False\<rparr>),
                  next_id := Suc (next_id db)\<rparr>))"

text \<open>The fallback for legacy rules with a single command.\<close>

definition commands_of :: "automation_rule \<Rightarrow> json list" where
  "commands_of rule =
     (if commands_json rule = []
      then (case command rule of
              None \<Rightarrow> []
            | Some c \<Rightarrow>
                (if c = [] then []
                 else [JObj [(''cmd'', JStr c),
                             (''logic'', JStr (str_or (extraction_hint rule) ''Execute command''))]]))
      else commands_json rule)"

text \<open>What the stream carries: the two early error payloads, or an event.\<close>

datatype sse = Not_found string | Data event

text \<open>
  \<^verbatim>\<open>stream_execution(execution_id)\<close>, the generator run to its end under a
  schedule: the stream it yields and the database it leaves. \<open>None\<close> when the
  consumer loop has not ended by the end of the schedule. Of the time stamps
  only the fact that \<^verbatim>\<open>completed_at\<close> is set is kept.
\<close>

definition stream_execution ::
  "(string \<Rightarrow> exn + json) \<Rightarrow> known_nodes \<Rightarrow> (nat \<Rightarrow> node_env) \<Rightarrow> action list \<Rightarrow> nat \<Rightarrow> database \<Rightarrow>
   (sse list \<times> database) option" where
  "stream_execution json_loads known envs sch execution_id db =
     (case executions db execution_id of
        None \<Rightarrow> Some ([Not_found ''Execution not found''], db)
      | Some execution \<Rightarrow>
          (case rules db (rule_id execution) of
             None \<Rightarrow> Some ([Not_found ''Rule not found''], db)
           | Some rule \<Rightarrow>
               (case consumer_loop sch
                       (init_state (spawn_tasks json_loads (condition rule) known envs
                          (str_or (execution_mode rule) ''sequential'')
                          (nodes_json rule) (commands_of rule))) of
                  None \<Rightarrow> None
                | Some s \<Rightarrow>
                    Some (map Data (yielded (drain s)) @ [Data complete_event],
                          db\<lparr>executions := (executions db)(execution_id \<mapsto>
                                execution\<lparr>status := COMPLETED, completed := True,
                                          timeline_json := timeline (drain s)\<rparr>)\<rparr>))))"

section \<open>The SSH executor and the runbook executor (executor.py)\<close>

text \<open>
  The world of one \<^verbatim>\<open>run_command\<close> call: \<^verbatim>\<open>self.connect()\<close> (decrypting the
  credential, importing the key, \<^verbatim>\<open>asyncssh.connect\<close>) raises or gives a
  connection; \<^verbatim>\<open>conn.run\<close> behaves as a \<open>run_outcome\<close>; leaving the
  \<^verbatim>\<open>async with\<close> block may raise.
\<close>

record ssh_env =
  ssh_connect :: "exn option"
  ssh_run :: "string \<Rightarrow> run_outcome"
  ssh_close :: "exn option"

text \<open>
  \<^verbatim>\<open>asyncio.wait_for(aw, timeout)\<close>: the awaitable has to end before the
  timeout has passed, else \<^verbatim>\<open>asyncio.TimeoutError\<close> is raised.
\<close>

fun wait_for :: "run_outcome \<Rightarrow> int \<Rightarrow> exn + completed_process" where
  "wait_for (Finishes d r) timeout = (if int d < timeout then Inr r else Inl (TimeoutError []))"
| "wait_for (RunRaises d e) timeout = (if int d < timeout then Inl e else Inl (TimeoutError []))"
| "wait_for NeverReturns timeout = Inl (TimeoutError [])"

text \<open>Decimal \<^verbatim>\<open>str()\<close> of an integer, for the f-string of the timeout message.\<close>

fun str_nat :: "nat \<Rightarrow> string" where
  "str_nat n =
     (if n < 10 then [char_of (48 + n)]
      else str_nat (n div 10) @ [char_of (48 + n mod 10)])"

definition str_int :: "int \<Rightarrow> string" where
  "str_int i = (if i < 0 then CHR ''-'' # str_nat (nat (- i)) else str_nat (nat i))"

record command_result =
  r_status :: string
  r_stdout :: string
  r_stderr :: string
  r_exit_code :: "int option"

text \<open>The three \<^verbatim>\<open>except\<close> clauses of \<^verbatim>\<open>run_command\<close>, in their order.\<close>

fun run_command_handler :: "int \<Rightarrow> exn \<Rightarrow> command_result" where
  "run_command_handler timeout (TimeoutError m) =
     \<lparr>r_status = ''FAILED'', r_stdout = [],
      r_stderr = ''Command timed out after '' @ str_int timeout @ '' seconds'',
      r_exit_code = Some (- 1)\<rparr>"
| "run_command_handler timeout (SSHError m) =
     \<lparr>r_status = ''FAILED'', r_stdout = [], r_stderr = ''SSH error: '' @ m,
      r_exit_code = Some (- 1)\<rparr>"
| "run_command_handler timeout (OtherError m) =
     \<lparr>r_status = ''FAILED'', r_stdout = [], r_stderr = ''Unexpected error: '' @ m,
      r_exit_code = Some (- 1)\<rparr>"

text \<open>
  The \<^verbatim>\<open>try\<close> block of \<^verbatim>\<open>run_command\<close>: \<open>Inl\<close> is the exception that leaves
  it (the one raised on leaving the \<^verbatim>\<open>async with\<close> block replaces one raised
  inside).
\<close>

definition run_command_body :: "ssh_env \<Rightarrow> string \<Rightarrow> int \<Rightarrow> exn + command_result" where
  "run_command_body env cmd timeout =
     (case ssh_connect env of
        Some e \<Rightarrow> Inl e
      | None \<Rightarrow>
          (case ssh_close env of
             Some e \<Rightarrow> Inl e
           | None \<Rightarrow>
               (case wait_for (ssh_run env cmd) timeout of
                  Inl e \<Rightarrow> Inl e
                | Inr result \<Rightarrow>
                    Inr \<lparr>r_status = (if exit_status result = Some 0 then ''SUCCESS'' else ''FAILED''),
                         r_stdout = p_stdout result,
                         r_stderr = p_stderr result,
                         r_exit_code = exit_status result\<rparr>)))"

text \<open>
  \<^verbatim>\<open>SSHExecutor.run_command(command, timeout=300)\<close>; \<open>Inl\<close> would be an exception
  that leaves the method.
\<close>

definition run_command :: "ssh_env \<Rightarrow> string \<Rightarrow> int \<Rightarrow> exn + command_result" where
  "run_command env cmd timeout =
     (case run_command_body env cmd timeout of
        Inr r \<Rightarrow> Inr r
      | Inl e \<Rightarrow> Inr (run_command_handler timeout e))"

definition default_timeout :: int where
  "default_timeout = 300"

datatype execution_status = ES_PENDING | ES_RUNNING | ES_SUCCESS | ES_FAILED | ES_PARTIAL

record server =
  server_id :: nat
  server_hostname :: string

record runbook_command =
  script :: string
  is_universal :: bool
  command_server_id :: "nat option"

text \<open>
  \<^verbatim>\<open>execute_on_servers(servers, command)\<close>: the results of
  \<^verbatim>\<open>execute_on_server\<close>, one per server in order; an exception that left
  \<^verbatim>\<open>run_command\<close> would be turned into a FAILED result by the gather loop.
\<close>

definition execute_on_servers ::
  "(nat \<Rightarrow> string \<Rightarrow> ssh_env) \<Rightarrow> server list \<Rightarrow> string \<Rightarrow> command_result list" where
  "execute_on_servers world servers cmd =
     map (\<lambda>srv. case run_command (world (server_id srv) cmd) cmd default_timeout of
                  Inr r \<Rightarrow> r
                | Inl e \<Rightarrow> \<lparr>r_status = ''FAILED'', r_stdout = [], r_stderr = str_exn e,
                            r_exit_code = Some (- 1)\<rparr>)
         servers"

text \<open>The inner loop \<^verbatim>\<open>for result in results\<close> on the two flags.\<close>

fun process_results :: "command_result list \<Rightarrow> bool \<times> bool \<Rightarrow> bool \<times> bool" where
  "process_results [] flags = flags"
| "process_results (r # rs) (all_success, any_success) =
     (if r_status r = ''SUCCESS''
      then process_results rs (all_success, True)
      else process_results rs (False, any_success))"

definition target_servers :: "server list \<Rightarrow> runbook_command \<Rightarrow> server list" where
  "target_servers servers c =
     (if is_universal c then servers
      else filter (\<lambda>s. Some (server_id s) = command_server_id c) servers)"

text \<open>The outer loop \<^verbatim>\<open>for command in commands\<close>.\<close>

fun run_runbook_commands ::
  "(nat \<Rightarrow> string \<Rightarrow> ssh_env) \<Rightarrow> server list \<Rightarrow> runbook_command list \<Rightarrow> bool \<times> bool \<Rightarrow> bool \<times> bool" where
  "run_runbook_commands world servers [] flags = flags"
| "run_runbook_commands world servers (c # cs) flags =
     run_runbook_commands world servers cs
       (process_results (execute_on_servers world (target_servers servers c) (script c)) flags)"

text \<open>
  \<^verbatim>\<open>execute_runbook\<close>: the status it stores last for the execution
  (\<open>runbook_found\<close>: the runbook row exists). The database calls and the
  analysis of the output, which is wrapped in its own \<^verbatim>\<open>try\<close>, do not enter the
  status.
\<close>

definition execute_runbook ::
  "(nat \<Rightarrow> string \<Rightarrow> ssh_env) \<Rightarrow> bool \<Rightarrow> server list \<Rightarrow> runbook_command list \<Rightarrow> execution_status" where
  "execute_runbook world runbook_found servers commands =
     (if \<not> runbook_found then ES_FAILED
      else if servers = [] then ES_FAILED
      else if commands = [] then ES_FAILED
      else (case run_runbook_commands world servers commands (True, False) of
              (all_success, any_success) \<Rightarrow>
                if all_success then ES_SUCCESS
                else if any_success then ES_PARTIAL
                else ES_FAILED))"

section \<open>Node name resolution (chat\_engine.py, resolve\_node)\<close>










section \<open>Notions used in the statements\<close>

text \<open>
  The dict the analyzer returns for the k-th command, when \<^verbatim>\<open>conn.run\<close> returned
  for it and the analyzer answered with a JSON object (an AnalysisResult).
\<close>

definition analysis_dict ::
  "(string \<Rightarrow> exn + json) \<Rightarrow> string \<Rightarrow> node_env \<Rightarrow> nat \<Rightarrow> json \<Rightarrow> (string \<times> json) list option" where
  "analysis_dict json_loads cond env k cmd_config =
     (case cmd_config of
        JObj cc \<Rightarrow>
          (case run_result env k (dict_get cc ''cmd'' JNull) of
             Finishes d p \<Rightarrow>
               (case analyze_output_with_llm json_loads (llm_result env k) (p_stdout p)
                       (dict_get cc ''logic'' (JStr '''')) cond of
                  Inr (JObj a) \<Rightarrow> Some a
                | _ \<Rightarrow> None)
           | _ \<Rightarrow> None)
      | _ \<Rightarrow> None)"

definition cmd_str_of :: "json \<Rightarrow> json" where
  "cmd_str_of cmd_config = (case cmd_config of JObj cc \<Rightarrow> dict_get cc ''cmd'' JNull | _ \<Rightarrow> JNull)"

text \<open>
  The events the specification lists for one successful command, in its order:
  executing, output received (success), analyzing, then condition met (warning)
  and an incident with the severity and summary of the analysis, or condition
  not met (success).
\<close>

definition spec_command_events :: "json \<Rightarrow> json \<Rightarrow> (string \<times> json) list \<Rightarrow> event list" where
  "spec_command_events node_name cmd_str a =
     [step_event (Executing cmd_str) None,
      step_event Output_received (Some Success),
      step_event Analyzing None] @
     (if truthy (dict_get a ''condition_met'' JNull)
      then [step_event (Condition_met (if truthy (dict_get a ''summary'' JNull)
                          then dict_get a ''summary'' JNull else JStr ''threshold exceeded''))
              (Some Warning),
            incident_event (Incident_raised (dict_get a ''summary'' JNull))
              (dict_get a ''severity'' JNull) node_name (JObj a)]
      else [step_event (Condition_not_met (if truthy (dict_get a ''summary'' JNull)
                          then dict_get a ''summary'' JNull else JStr ''within normal range''))
              (Some Success)])"

definition is_error :: "event \<Rightarrow> bool" where
  "is_error e = (ev_type e = Error)"

definition is_step :: "event \<Rightarrow> bool" where
  "is_step e = (ev_type e = Step)"

section \<open>Sample worlds\<close>

text \<open>
  A stub of \<^verbatim>\<open>json.loads\<close> that decodes two replies and rejects every other
  text, stub transports, two nodes, two commands and a database with one rule
  and one pending execution; the statements below are instantiated with them.
\<close>

definition sample_json_loads :: "string \<Rightarrow> exn + json" where
  "sample_json_loads s =
     (if s = ''OK''
      then Inr (JObj [(''extracted_value'', JStr ''0.15''), (''condition_met'', JBool False),
                      (''summary'', JStr ''load is normal''), (''severity'', JStr ''info'')])
      else if s = ''ALERT''
      then Inr (JObj [(''extracted_value'', JStr ''91''), (''condition_met'', JBool True),
                      (''summary'', JStr ''disk usage is 91 percent''), (''severity'', JStr ''critical'')])
      else Inl (OtherError ''Expecting value: line 1 column 1 (char 0)''))"

definition sample_process :: completed_process where
  "sample_process = \<lparr>exit_status = Some 0, p_stdout = ''up 5 days'', p_stderr = []\<rparr>"

definition sample_env_ok :: node_env where
  "sample_env_ok =
     \<lparr>connect_result = (\<lambda>opts. None),
      run_result = (\<lambda>k cmd. Finishes 1 sample_process),
      llm_result = (\<lambda>k. if k = 1 then Inr [Some ''ALERT''] else Inr [Some ''OK'']),
      close_result = None\<rparr>"

definition sample_env_unreachable :: node_env where
  "sample_env_unreachable =
     \<lparr>connect_result = (\<lambda>opts. Some (SSHError ''Connection refused'')),
      run_result = (\<lambda>k cmd. Finishes 1 sample_process),
      llm_result = (\<lambda>k. Inr [Some ''OK'']),
      close_result = None\<rparr>"

definition sample_env_lost :: node_env where
  "sample_env_lost =
     \<lparr>connect_result = (\<lambda>opts. None),
      run_result = (\<lambda>k cmd. if k = 1 then RunRaises 2 (SSHError ''Connection lost'')
                              else Finishes 1 sample_process),
      llm_result = (\<lambda>k. Inr [Some ''OK'']),
      close_result = None\<rparr>"

definition sample_env_hang :: node_env where
  "sample_env_hang =
     \<lparr>connect_result = (\<lambda>opts. None),
      run_result = (\<lambda>k cmd. NeverReturns),
      llm_result = (\<lambda>k. Inr [Some ''OK'']),
      close_result = None\<rparr>"

definition sample_env_no_llm :: node_env where
  "sample_env_no_llm =
     \<lparr>connect_result = (\<lambda>opts. None),
      run_result = (\<lambda>k cmd. Finishes 1 sample_process),
      llm_result = (\<lambda>k. Inl (OtherError ''rate limit exceeded'')),
      close_result = None\<rparr>"

definition node_n1 :: json where
  "node_n1 = JObj [(''name'', JStr ''n1''), (''hostname'', JStr ''10.0.0.1'')]"

definition node_n2 :: json where
  "node_n2 = JObj [(''name'', JStr ''n2''), (''hostname'', JStr ''10.0.0.2'')]"

definition sample_commands :: "json list" where
  "sample_commands =
     [JObj [(''cmd'', JStr ''uptime''), (''logic'', JStr ''report output'')],
      JObj [(''cmd'', JStr ''df -h''), (''logic'', JStr ''alert if usage > 80%'')]]"

definition sample_rule :: "json list \<Rightarrow> json list \<Rightarrow> string \<Rightarrow> automation_rule" where
  "sample_rule nodes commands mode =
     \<lparr>nodes_json = nodes, commands_json = commands, command = None, extraction_hint = None,
      condition = None, execution_mode = Some mode\<rparr>"

definition sample_db :: "automation_rule \<Rightarrow> database" where
  "sample_db rule =
     \<lparr>rules = Map.empty(1 \<mapsto> rule),
      executions = Map.empty(1 \<mapsto>
        \<lparr>rule_id = 1, status = EXECUTING, timeline_json = [], completed = False\<rparr>),
      next_id = 2\<rparr>"

definition sample_ssh :: "run_outcome \<Rightarrow> ssh_env" where
  "sample_ssh outcome = \<lparr>ssh_connect = None, ssh_run = (\<lambda>cmd. outcome), ssh_close = None\<rparr>"

definition no_known_nodes :: known_nodes where
  "no_known_nodes = Map.empty"

text \<open>What a finished run left in the row of an execution, and what it streamed.\<close>

definition stored_status :: "(sse list \<times> database) option \<Rightarrow> nat \<Rightarrow> rule_status option" where
  "stored_status r xid =
     (case r of None \<Rightarrow> None | Some (out, db) \<Rightarrow> map_option status (executions db xid))"

definition stored_timeline :: "(sse list \<times> database) option \<Rightarrow> nat \<Rightarrow> event list option" where
  "stored_timeline r xid =
     (case r of None \<Rightarrow> None | Some (out, db) \<Rightarrow> map_option timeline_json (executions db xid))"

definition streamed :: "(sse list \<times> database) option \<Rightarrow> sse list option" where
  "streamed r = map_option fst r"

definition is_executing :: "event \<Rightarrow> bool" where
  "is_executing e = (case ev_message e of Executing c \<Rightarrow> True | _ \<Rightarrow> False)"

text \<open>Worlds for a plan of two nodes: the first reachable, the second not, and variants.\<close>

definition sample_envs :: "nat \<Rightarrow> node_env" where
  "sample_envs i = (if i = 0 then sample_env_ok else sample_env_unreachable)"

definition sample_envs_lost :: "nat \<Rightarrow> node_env" where
  "sample_envs_lost i = (if i = 0 then sample_env_lost else sample_env_ok)"

definition sample_envs_hang :: "nat \<Rightarrow> node_env" where
  "sample_envs_hang i = sample_env_hang"

definition sample_envs_down :: "nat \<Rightarrow> node_env" where
  "sample_envs_down i = sample_env_unreachable"

text \<open>The counter of the consumer never exceeds the number of tasks that are done.\<close>

definition counted :: "run_state \<Rightarrow> bool" where
  "counted s = (finished_tasks s \<le> length (filter task_done (tasks s)))"


text \<open>The tasks \<^verbatim>\<open>stream_execution\<close> starts for a rule.\<close>

definition rule_tasks ::
  "(string \<Rightarrow> exn + json) \<Rightarrow> known_nodes \<Rightarrow> (nat \<Rightarrow> node_env) \<Rightarrow> automation_rule \<Rightarrow> task list" where
  "rule_tasks json_loads known envs rule =
     spawn_tasks json_loads (condition rule) known envs
       (str_or (execution_mode rule) ''sequential'') (nodes_json rule) (commands_of rule)"

text \<open>The events of the worker of each node of a list, node by node.\<close>

definition node_events ::
  "(string \<Rightarrow> exn + json) \<Rightarrow> string option \<Rightarrow> known_nodes \<Rightarrow> (nat \<Rightarrow> node_env) \<Rightarrow> json list \<Rightarrow>
   nat \<Rightarrow> json list \<Rightarrow> event list list" where
  "node_events json_loads rule_condition known envs commands i nodes =
     map (\<lambda>(j, node). fst (process_node json_loads rule_condition known (envs j) node commands))
       (enumerate i nodes)"

text \<open>The position in the concatenation at which block \<open>a\<close> starts.\<close>

definition offset :: "'a list list \<Rightarrow> nat \<Rightarrow> nat" where
  "offset blocks a = length (concat (take a blocks))"

text \<open>All results of a runbook execution, command by command and server by server.\<close>

definition runbook_results ::
  "(nat \<Rightarrow> string \<Rightarrow> ssh_env) \<Rightarrow> server list \<Rightarrow> runbook_command list \<Rightarrow> command_result list" where
  "runbook_results world servers commands =
     concat (map (\<lambda>c. execute_on_servers world (target_servers servers c) (script c)) commands)"

definition succeeded :: "command_result \<Rightarrow> bool" where
  "succeeded r = (r_status r = ''SUCCESS'')"

text \<open>The row \<^verbatim>\<open>stream_execution\<close> stores when it finalizes an execution.\<close>

definition finalized :: "rule_execution \<Rightarrow> event list \<Rightarrow> rule_execution" where
  "finalized execution events =
     execution\<lparr>status := COMPLETED, completed := True, timeline_json := events\<rparr>"

definition sample_world :: "nat \<Rightarrow> string \<Rightarrow> ssh_env" where
  "sample_world sid cmd =
     (if sid = 1 then sample_ssh (Finishes 1 sample_process)
      else sample_ssh (Finishes 1 \<lparr>exit_status = Some 2, p_stdout = [], p_stderr = ''not found''\<rparr>))"

definition sample_servers :: "server list" where
  "sample_servers = [\<lparr>server_id = 1, server_hostname = ''10.0.0.1''\<rparr>,
                     \<lparr>server_id = 2, server_hostname = ''10.0.0.2''\<rparr>]"

definition sample_runbook_commands :: "runbook_command list" where
  "sample_runbook_commands = [\<lparr>script = ''uptime'', is_universal = True, command_server_id = None\<rparr>]"

definition sample_schedule :: "action list" where
  "sample_schedule = [Put 0, Put 1, Get, Put 0, Put 1, Get, Get, Put 0, Put 0, Put 0, Put 0, Get, Get,
     Put 0, Put 0, Put 0, Put 0, Put 0, Get, Get, Get, Get, Get, Get, Get, Get, Get, Timeout]"

definition sample_schedule_seq :: "action list" where
  "sample_schedule_seq = concat (replicate 13 [Put 0, Get]) @ [Timeout]"

definition sample_events_n1 :: "event list" where
  "sample_events_n1 =
     [step_event (Connecting (JStr ''n1'')) None,
      step_event (Connected (JStr ''n1'')) (Some Success),
      step_event (Executing (JStr ''uptime'')) None,
      step_event Output_received (Some Success),
      step_event Analyzing None,
      step_event (Condition_not_met (JStr ''load is normal'')) (Some Success),
      step_event (Executing (JStr ''df -h'')) None,
      step_event Output_received (Some Success),
      step_event Analyzing None,
      step_event (Condition_met (JStr ''disk usage is 91 percent'')) (Some Warning),
      incident_event (Incident_raised (JStr ''disk usage is 91 percent'')) (JStr ''critical'') (JStr ''n1'')
        (JObj [(''extracted_value'', JStr ''91''), (''condition_met'', JBool True),
               (''summary'', JStr ''disk usage is 91 percent''), (''severity'', JStr ''critical'')])]"

definition sample_events_n2 :: "event list" where
  "sample_events_n2 =
     [step_event (Connecting (JStr ''n2'')) None,
      error_event (Failed (JStr ''Connection refused''))]"




section \<open>Properties of the SSH executor\<close>

lemma str_nat_nonempty: "str_nat n \<noteq> []"
  by (subst str_nat.simps) simp




section \<open>Properties of the output analyzer\<close>

lemma analyzer_returns:
  "analyze_output_with_llm jl resp out hint cond =
     (case analyze_body jl resp of Inr v \<Rightarrow> Inr v | Inl e \<Rightarrow> Inr (degraded_analysis e))"
  by (simp add: analyze_output_with_llm_def)

lemma analyze_body_Inr: "analyze_body jl resp = Inr v \<Longrightarrow> \<exists>c. jl c = Inr v"
  by (auto simp: analyze_body_def Let_def split: sum.splits list.splits option.splits if_splits)

lemma analyze_body_api_error: "analyze_body jl (Inl e) = Inl e"
  by (simp add: analyze_body_def)

lemma gen_simps:
  "generate_execution_narrative ''connecting'' d = Connecting (dict_get d ''node'' (JStr ''node''))"
  "generate_execution_narrative ''connected'' d = Connected (dict_get d ''node'' (JStr ''node''))"
  "generate_execution_narrative ''executing'' d = Executing (dict_get d ''command'' (JStr ''...''))"
  "generate_execution_narrative ''output_received'' d = Output_received"
  "generate_execution_narrative ''analyzing'' d = Analyzing"
  "generate_execution_narrative ''condition_met'' d =
     Condition_met (if truthy (dict_get d ''message'' (JStr '''')) then dict_get d ''message'' (JStr '''')
                    else JStr ''threshold exceeded'')"
  "generate_execution_narrative ''condition_not_met'' d =
     Condition_not_met (if truthy (dict_get d ''message'' (JStr '''')) then dict_get d ''message'' (JStr '''')
                    else JStr ''within normal range'')"
  "generate_execution_narrative ''incident_raised'' d = Incident_raised (dict_get d ''message'' (JStr ''''))"
  "generate_execution_narrative ''completed'' d = Completed"
  "generate_execution_narrative ''failed'' d = Failed (dict_get d ''error'' (JStr ''Unknown error''))"
  by (simp_all add: generate_execution_narrative_def Let_def)

lemma dict_get_simps:
  "dict_get [] k d = d"
  "dict_get ((k', v) # kvs) k d = (if k = k' then v else dict_get kvs k d)"
  by (simp_all add: dict_get_def)

lemma command_step_ok:
  assumes "analysis_dict jl cond env k c = Some a"
  shows "command_step jl cond env node k c = (spec_command_events node (cmd_str_of c) a, Returned)"
  using assms
  by (auto simp: analysis_dict_def command_step_def spec_command_events_def cmd_str_of_def Let_def
        gen_simps dict_get_simps split: json.splits run_outcome.splits sum.splits)

lemma run_commands_Cons:
  "run_commands jl cond env node k (x # xs) =
     (if snd (command_step jl cond env node k x) = Returned
      then (fst (command_step jl cond env node k x) @ fst (run_commands jl cond env node (Suc k) xs),
            snd (run_commands jl cond env node (Suc k) xs))
      else command_step jl cond env node k x)"
  by (cases "command_step jl cond env node k x"; cases "run_commands jl cond env node (Suc k) xs")
     (auto split: fate.splits)

lemma run_commands_append:
  "snd (run_commands jl cond env node k xs) = Returned \<Longrightarrow>
   run_commands jl cond env node k (xs @ ys) =
     (fst (run_commands jl cond env node k xs) @ fst (run_commands jl cond env node (k + length xs) ys),
      snd (run_commands jl cond env node (k + length xs) ys))"
proof (induction xs arbitrary: k)
  case Nil
  then show ?case by simp
next
  case (Cons x xs)
  from Cons.prems have f: "snd (command_step jl cond env node k x) = Returned"
    and f': "snd (run_commands jl cond env node (Suc k) xs) = Returned"
    by (auto simp: run_commands_Cons simp del: run_commands.simps split: if_splits)
  from Cons.IH[OF f'] f show ?case
    by (simp add: run_commands_Cons del: run_commands.simps)
qed

lemma run_commands_all_ok:
  "(\<forall>j<length xs. analysis_dict jl cond env (k + j) (xs ! j) \<noteq> None) \<Longrightarrow>
   snd (run_commands jl cond env node k xs) = Returned"
proof (induction xs arbitrary: k)
  case Nil
  then show ?case by simp
next
  case (Cons x xs)
  from Cons.prems[rule_format, of 0] obtain a where a: "analysis_dict jl cond env k x = Some a" by auto
  have "\<forall>j<length xs. analysis_dict jl cond env (Suc k + j) (xs ! j) \<noteq> None"
  proof (intro allI impI)
    fix j assume "j < length xs"
    then show "analysis_dict jl cond env (Suc k + j) (xs ! j) \<noteq> None"
      using Cons.prems[rule_format, of "Suc j"] by simp
  qed
  from Cons.IH[OF this] show ?case
    by (simp add: run_commands_Cons command_step_ok[OF a] del: run_commands.simps)
qed


lemma command_step_degraded:
  assumes "run_result env k (dict_get cc ''cmd'' JNull) = Finishes d p"
    and "analyze_body jl (llm_result env k) = Inl e"
  shows "command_step jl cond env node k (JObj cc) =
           ([step_event (Executing (dict_get cc ''cmd'' JNull)) None,
             step_event Output_received (Some Success),
             step_event Analyzing None,
             step_event (Condition_not_met (JStr (''Could not analyze: '' @ str_exn e))) (Some Success)],
            Returned)"
  using assms
  by (simp add: command_step_def Let_def analyzer_returns degraded_analysis_def gen_simps dict_get_simps)

text \<open>
  C6 (as the code behaves). The analyzer never lets an exception out: it returns either the
  value \<^verbatim>\<open>json.loads\<close> decoded from the reply, or, on any failure inside its
  \<^verbatim>\<open>try\<close> block (the API call raising, no choice, a null content, a reply that
  does not decode), a dict with extracted\_value "unknown", condition\_met False,
  severity "info" and the summary "Could not analyze: " followed by the text of
  the exception. In the worker such a result gives the condition-not-met step
  and the loop over the commands goes on.
\<close>

theorem analyzer_never_raises:
  "(\<exists>v. analyze_output_with_llm jl resp out hint cond = Inr v \<and>
        ((\<exists>c. jl c = Inr v) \<or>
         (\<exists>e. v = JObj [(''extracted_value'', JStr ''unknown''),
                        (''condition_met'', JBool False),
                        (''summary'', JStr (''Could not analyze: '' @ str_exn e)),
                        (''severity'', JStr ''info'')]))) \<and>
   (resp = Inl e \<longrightarrow>
      analyze_output_with_llm jl resp out hint cond =
        Inr (JObj [(''extracted_value'', JStr ''unknown''),
                   (''condition_met'', JBool False),
                   (''summary'', JStr (''Could not analyze: '' @ str_exn e)),
                   (''severity'', JStr ''info'')])) \<and>
   (run_result env k (dict_get cc ''cmd'' JNull) = Finishes d p \<longrightarrow>
    analyze_body jl (llm_result env k) = Inl e' \<longrightarrow>
      command_step jl cond env node k (JObj cc) =
        ([step_event (Executing (dict_get cc ''cmd'' JNull)) None,
          step_event Output_received (Some Success),
          step_event Analyzing None,
          step_event (Condition_not_met (JStr (''Could not analyze: '' @ str_exn e'))) (Some Success)],
         Returned))"
proof (intro conjI impI)
  show "\<exists>v. analyze_output_with_llm jl resp out hint cond = Inr v \<and>
        ((\<exists>c. jl c = Inr v) \<or>
         (\<exists>e. v = JObj [(''extracted_value'', JStr ''unknown''),
                        (''condition_met'', JBool False),
                        (''summary'', JStr (''Could not analyze: '' @ str_exn e)),
                        (''severity'', JStr ''info'')]))"
  proof (cases "analyze_body jl resp")
    case (Inl e)
    then show ?thesis by (auto simp: analyzer_returns degraded_analysis_def)
  next
    case (Inr v)
    with analyze_body_Inr[OF Inr] show ?thesis by (auto simp: analyzer_returns)
  qed
next
  assume "resp = Inl e"
  then show "analyze_output_with_llm jl resp out hint cond =
        Inr (JObj [(''extracted_value'', JStr ''unknown''),
                   (''condition_met'', JBool False),
                   (''summary'', JStr (''Could not analyze: '' @ str_exn e)),
                   (''severity'', JStr ''info'')])"
    by (simp add: analyzer_returns analyze_body_api_error degraded_analysis_def)
next
  assume "run_result env k (dict_get cc ''cmd'' JNull) = Finishes d p"
    and "analyze_body jl (llm_result env k) = Inl e'"
  then show "command_step jl cond env node k (JObj cc) =
        ([step_event (Executing (dict_get cc ''cmd'' JNull)) None,
          step_event Output_received (Some Success),
          step_event Analyzing None,
          step_event (Condition_not_met (JStr (''Could not analyze: '' @ str_exn e'))) (Some Success)],
         Returned)"
    by (rule command_step_degraded)
qed

theorem analyzer_never_raises_witness:
  "command_step sample_json_loads ''Check for errors'' sample_env_no_llm (JStr ''n1'') 0
     (JObj [(''cmd'', JStr ''uptime'')]) =
     ([step_event (Executing (JStr ''uptime'')) None,
       step_event Output_received (Some Success),
       step_event Analyzing None,
       step_event (Condition_not_met (JStr ''Could not analyze: rate limit exceeded'')) (Some Success)],
      Returned)"
proof -
  have r: "run_result sample_env_no_llm 0 (dict_get [(''cmd'', JStr ''uptime'')] ''cmd'' JNull)
             = Finishes 1 sample_process"
    by (simp add: sample_env_no_llm_def)
  have a: "analyze_body sample_json_loads (llm_result sample_env_no_llm 0)
             = Inl (OtherError ''rate limit exceeded'')"
    by (simp add: sample_env_no_llm_def analyze_body_def)
  from analyzer_never_raises[where jl = sample_json_loads and env = sample_env_no_llm and k = 0
      and cc = "[(''cmd'', JStr ''uptime'')]" and d = 1 and p = sample_process
      and e' = "OtherError ''rate limit exceeded''" and cond = "''Check for errors''"
      and node = "JStr ''n1''"] r a
  show ?thesis by (simp add: dict_get_simps)
qed

theorem analyzer_summary_counterexample:
  "analyze_output_with_llm sample_json_loads (Inl (OtherError ''rate limit exceeded''))
     ''up 5 days'' (JStr ''report output'') ''Check for errors'' =
     Inr (JObj [(''extracted_value'', JStr ''unknown''),
                (''condition_met'', JBool False),
                (''summary'', JStr ''Could not analyze: rate limit exceeded''),
                (''severity'', JStr ''info'')]) \<and>
   JStr ''Could not analyze: rate limit exceeded'' \<noteq> JStr ''analysis unavailable''"
  by (simp add: analyze_output_with_llm_def analyze_body_def degraded_analysis_def)

section \<open>Properties of the node worker\<close>



lemma record_event_simps:
  "is_error (step_event m st) = False"
  "is_error (incident_event m a b c) = False"
  "is_error (error_event m) = True"
  "is_step (step_event m st) = True"
  "is_step (incident_event m a b c) = False"
  "is_step (error_event m) = False"
  "is_executing (step_event m st) = (case m of Executing c \<Rightarrow> True | _ \<Rightarrow> False)"
  "is_executing (incident_event m a b c) = (case m of Executing c \<Rightarrow> True | _ \<Rightarrow> False)"
  "is_executing (error_event m) = (case m of Executing c \<Rightarrow> True | _ \<Rightarrow> False)"
  by (simp_all add: is_error_def is_step_def is_executing_def step_event_def incident_event_def
        error_event_def)

lemma command_step_no_error: "filter is_error (fst (command_step jl cond env node k c)) = []"
  by (auto simp: command_step_def Let_def record_event_simps
        split: json.splits run_outcome.splits sum.splits)

lemma run_commands_no_error: "filter is_error (fst (run_commands jl cond env node k cs)) = []"
  by (induction cs arbitrary: k)
     (simp_all add: run_commands_Cons command_step_no_error del: run_commands.simps(2))

lemma try_block_no_error:
  "filter is_error (fst (try_block jl rc env name host user cred commands)) = []"
  by (auto simp: try_block_def Let_def record_event_simps run_commands_no_error
        split: option.splits prod.splits fate.splits
        dest: arg_cong[where f = "\<lambda>r. filter is_error (fst r)"])

lemma try_except_raised:
  "snd (try_block jl rc env name host user cred commands) = Raised e \<Longrightarrow>
   try_except jl rc env name host user cred commands =
     (fst (try_block jl rc env name host user cred commands) @
        [error_event (Failed (JStr (str_exn e)))], Returned)"
  by (cases "try_block jl rc env name host user cred commands")
     (simp add: try_except_def gen_simps dict_get_simps)

lemma process_node_setup:
  "node_setup known node_config = Inr (name, host, user, cred) \<Longrightarrow>
   process_node jl rc known env node_config commands =
     try_except jl rc env name host user cred commands"
  by (simp add: process_node_def)

lemma sequential_runner_Cons:
  "sequential_runner jl rc known envs commands n (node # rest) =
     (if snd (process_node jl rc known (envs n) node commands) = Returned
      then (fst (process_node jl rc known (envs n) node commands) @
              fst (sequential_runner jl rc known envs commands (Suc n) rest),
            snd (sequential_runner jl rc known envs commands (Suc n) rest))
      else process_node jl rc known (envs n) node commands)"
  by (cases "process_node jl rc known (envs n) node commands";
      cases "sequential_runner jl rc known envs commands (Suc n) rest")
     (auto split: fate.splits)

lemma spawn_parallel_nth:
  "m < length nodes \<Longrightarrow>
   spawn_tasks jl rc known envs ''parallel'' nodes commands ! m =
     process_node jl rc known (envs m) (nodes ! m) commands"
  by (simp add: spawn_tasks_def nth_enumerate_eq)

lemma run_commands_failing:
  assumes "i < length cs"
    and "\<forall>j<i. analysis_dict jl cond env (k + j) (cs ! j) \<noteq> None"
    and "cs ! i = JObj cc"
    and "run_result env (k + i) (dict_get cc ''cmd'' JNull) = RunRaises d e"
  shows "run_commands jl cond env node k cs =
           (fst (run_commands jl cond env node k (take i cs)) @
              [step_event (Executing (dict_get cc ''cmd'' JNull)) None], Raised e)"
proof -
  have split: "cs = take i cs @ (cs ! i) # drop (Suc i) cs"
    using assms(1) by (simp add: id_take_nth_drop)
  have pre: "snd (run_commands jl cond env node k (take i cs)) = Returned"
    using assms(1,2) by (intro run_commands_all_ok) simp
  have len: "length (take i cs) = i" using assms(1) by simp
  have st: "command_step jl cond env node (k + i) (cs ! i) =
              ([step_event (Executing (dict_get cc ''cmd'' JNull)) None], Raised e)"
    using assms(3,4) by (simp add: command_step_def Let_def gen_simps dict_get_simps)
  have "run_commands jl cond env node k cs =
          run_commands jl cond env node k (take i cs @ (cs ! i) # drop (Suc i) cs)"
    using split by simp
  also have "\<dots> = (fst (run_commands jl cond env node k (take i cs)) @
                    fst (run_commands jl cond env node (k + i) ((cs ! i) # drop (Suc i) cs)),
                   snd (run_commands jl cond env node (k + i) ((cs ! i) # drop (Suc i) cs)))"
    using run_commands_append[OF pre] len by simp
  finally show ?thesis
    by (simp add: run_commands_Cons st del: run_commands.simps)
qed

lemma spec_events_one_executing:
  "filter is_executing (spec_command_events node c a) = [step_event (Executing c) None]"
  by (simp add: spec_command_events_def record_event_simps)

lemma run_commands_count_executing:
  "(\<forall>j<length cs. analysis_dict jl cond env (k + j) (cs ! j) \<noteq> None) \<Longrightarrow>
   length (filter is_executing (fst (run_commands jl cond env node k cs))) = length cs"
proof (induction cs arbitrary: k)
  case Nil
  then show ?case by simp
next
  case (Cons x xs)
  from Cons.prems[rule_format, of 0] obtain a where a: "analysis_dict jl cond env k x = Some a" by auto
  have "\<forall>j<length xs. analysis_dict jl cond env (Suc k + j) (xs ! j) \<noteq> None"
  proof (intro allI impI)
    fix j assume "j < length xs"
    then show "analysis_dict jl cond env (Suc k + j) (xs ! j) \<noteq> None"
      using Cons.prems[rule_format, of "Suc j"] by simp
  qed
  from Cons.IH[OF this] show ?case
    by (simp add: run_commands_Cons command_step_ok[OF a] spec_events_one_executing
          del: run_commands.simps)
qed

text \<open>
  C5. Let the statements before the \<^verbatim>\<open>try\<close> of the worker of node \<open>n\<close> succeed.
  Whenever an exception is raised at any stage inside the \<^verbatim>\<open>try\<close> block (a
  connect or transport error, or any other), the worker puts exactly one error
  event, as its last event, and returns, so the sequential runner goes on with
  the next node. A connect error gives the connecting step and the error event
  only. A transport error on command \<open>i\<close> (the commands before it having run
  successfully) gives the events of the commands before it, the executing step
  of command \<open>i\<close> and the error event: \<open>i + 1\<close> commands were attempted and none
  after it. In parallel mode the task of every node is the worker of that node
  alone, in its own world.
\<close>

theorem node_failure_is_contained:
  assumes "node_setup known node_config = Inr (name, host, user, cred)"
  shows
   "(snd (try_block jl rc (envs n) name host user cred commands) = Raised e \<longrightarrow>
       process_node jl rc known (envs n) node_config commands =
         (fst (try_block jl rc (envs n) name host user cred commands) @
            [error_event (Failed (JStr (str_exn e)))], Returned) \<and>
       filter is_error (fst (process_node jl rc known (envs n) node_config commands)) =
         [error_event (Failed (JStr (str_exn e)))] \<and>
       sequential_runner jl rc known envs commands n (node_config # rest) =
         (fst (process_node jl rc known (envs n) node_config commands) @
            fst (sequential_runner jl rc known envs commands (Suc n) rest),
          snd (sequential_runner jl rc known envs commands (Suc n) rest))) \<and>
    (credential_check cred = None \<longrightarrow> connect_result (envs n) (host, user, cred) = Some e \<longrightarrow>
       process_node jl rc known (envs n) node_config commands =
         ([step_event (Connecting name) None, error_event (Failed (JStr (str_exn e)))], Returned)) \<and>
    (credential_check cred = None \<longrightarrow> connect_result (envs n) (host, user, cred) = None \<longrightarrow>
     close_result (envs n) = None \<longrightarrow> i < length commands \<longrightarrow>
     (\<forall>j<i. analysis_dict jl (str_or rc ''Check for errors'') (envs n) j (commands ! j) \<noteq> None) \<longrightarrow>
     commands ! i = JObj cc \<longrightarrow>
     run_result (envs n) i (dict_get cc ''cmd'' JNull) = RunRaises d e \<longrightarrow>
       process_node jl rc known (envs n) node_config commands =
         (step_event (Connecting name) None # step_event (Connected name) (Some Success) #
            fst (run_commands jl (str_or rc ''Check for errors'') (envs n) name 0 (take i commands)) @
            [step_event (Executing (dict_get cc ''cmd'' JNull)) None,
             error_event (Failed (JStr (str_exn e)))], Returned) \<and>
       length (filter is_executing (fst (process_node jl rc known (envs n) node_config commands))) = Suc i) \<and>
    (m < length nodes \<longrightarrow>
       spawn_tasks jl rc known envs ''parallel'' nodes commands ! m =
         process_node jl rc known (envs m) (nodes ! m) commands)"
proof (intro conjI impI)
  assume r: "snd (try_block jl rc (envs n) name host user cred commands) = Raised e"
  show p: "process_node jl rc known (envs n) node_config commands =
         (fst (try_block jl rc (envs n) name host user cred commands) @
            [error_event (Failed (JStr (str_exn e)))], Returned)"
    using process_node_setup[OF assms] try_except_raised[OF r] by simp
  show "filter is_error (fst (process_node jl rc known (envs n) node_config commands)) =
         [error_event (Failed (JStr (str_exn e)))]"
    by (simp add: p try_block_no_error record_event_simps)
  show "sequential_runner jl rc known envs commands n (node_config # rest) =
         (fst (process_node jl rc known (envs n) node_config commands) @
            fst (sequential_runner jl rc known envs commands (Suc n) rest),
          snd (sequential_runner jl rc known envs commands (Suc n) rest))"
    by (simp add: sequential_runner_Cons p del: sequential_runner.simps)
next
  assume "credential_check cred = None" "connect_result (envs n) (host, user, cred) = Some e"
  then have "try_block jl rc (envs n) name host user cred commands =
               ([step_event (Connecting name) None], Raised e)"
    by (simp add: try_block_def gen_simps dict_get_simps)
  then show "process_node jl rc known (envs n) node_config commands =
         ([step_event (Connecting name) None, error_event (Failed (JStr (str_exn e)))], Returned)"
    using process_node_setup[OF assms] try_except_raised[of jl rc "envs n" name host user cred commands e]
    by simp
next
  assume h: "credential_check cred = None" "connect_result (envs n) (host, user, cred) = None"
    "close_result (envs n) = None" "i < length commands"
    "\<forall>j<i. analysis_dict jl (str_or rc ''Check for errors'') (envs n) j (commands ! j) \<noteq> None"
    "commands ! i = JObj cc"
    "run_result (envs n) i (dict_get cc ''cmd'' JNull) = RunRaises d e"
  have rc: "run_commands jl (str_or rc ''Check for errors'') (envs n) name 0 commands =
          (fst (run_commands jl (str_or rc ''Check for errors'') (envs n) name 0 (take i commands)) @
             [step_event (Executing (dict_get cc ''cmd'' JNull)) None], Raised e)"
    using run_commands_failing[of i commands jl "str_or rc ''Check for errors''" "envs n" 0 cc d e name] h
    by simp
  have tb: "try_block jl rc (envs n) name host user cred commands =
          (step_event (Connecting name) None # step_event (Connected name) (Some Success) #
             fst (run_commands jl (str_or rc ''Check for errors'') (envs n) name 0 (take i commands)) @
             [step_event (Executing (dict_get cc ''cmd'' JNull)) None], Raised e)"
    using h(1-3) by (simp add: try_block_def Let_def rc gen_simps dict_get_simps)
  show p: "process_node jl rc known (envs n) node_config commands =
         (step_event (Connecting name) None # step_event (Connected name) (Some Success) #
            fst (run_commands jl (str_or rc ''Check for errors'') (envs n) name 0 (take i commands)) @
            [step_event (Executing (dict_get cc ''cmd'' JNull)) None,
             error_event (Failed (JStr (str_exn e)))], Returned)"
    using process_node_setup[OF assms] try_except_raised[of jl rc "envs n" name host user cred commands e]
    by (simp add: tb)
  have "length (filter is_executing
          (fst (run_commands jl (str_or rc ''Check for errors'') (envs n) name 0 (take i commands)))) =
        length (take i commands)"
    using h(4,5) by (intro run_commands_count_executing) simp
  then show "length (filter is_executing (fst (process_node jl rc known (envs n) node_config commands))) = Suc i"
    using h(4) by (simp add: p record_event_simps)
next
  assume "m < length nodes"
  then show "spawn_tasks jl rc known envs ''parallel'' nodes commands ! m =
         process_node jl rc known (envs m) (nodes ! m) commands"
    by (rule spawn_parallel_nth)
qed

lemma sample_setup_n1:
  "node_setup no_known_nodes node_n1 = Inr (JStr ''n1'', JStr ''10.0.0.1'', JStr ''ubuntu'', JNull)"
  by (simp add: node_setup_def node_n1_def dict_get_simps node_credential_def no_known_nodes_def)

lemma sample_setup_n2:
  "node_setup no_known_nodes node_n2 = Inr (JStr ''n2'', JStr ''10.0.0.2'', JStr ''ubuntu'', JNull)"
  by (simp add: node_setup_def node_n2_def dict_get_simps node_credential_def no_known_nodes_def)

theorem node_failure_is_contained_witness:
  "process_node sample_json_loads None no_known_nodes (sample_envs 1) node_n2 sample_commands =
     ([step_event (Connecting (JStr ''n2'')) None,
       error_event (Failed (JStr ''Connection refused''))], Returned) \<and>
   process_node sample_json_loads None no_known_nodes (sample_envs_lost 0) node_n1 sample_commands =
     ([step_event (Connecting (JStr ''n1'')) None,
       step_event (Connected (JStr ''n1'')) (Some Success),
       step_event (Executing (JStr ''uptime'')) None,
       step_event Output_received (Some Success),
       step_event Analyzing None,
       step_event (Condition_not_met (JStr ''load is normal'')) (Some Success),
       step_event (Executing (JStr ''df -h'')) None,
       error_event (Failed (JStr ''Connection lost''))], Returned) \<and>
   length (filter is_executing
     (fst (process_node sample_json_loads None no_known_nodes (sample_envs_lost 0) node_n1
             sample_commands))) = 2"
proof -
  have c: "credential_check JNull = None" by (simp add: credential_check_def)
  have u: "connect_result (sample_envs 1) (JStr ''10.0.0.2'', JStr ''ubuntu'', JNull) =
             Some (SSHError ''Connection refused'')"
    by (simp add: sample_envs_def sample_env_unreachable_def)
  have w1: "process_node sample_json_loads None no_known_nodes (sample_envs 1) node_n2 sample_commands =
     ([step_event (Connecting (JStr ''n2'')) None,
       error_event (Failed (JStr ''Connection refused''))], Returned)"
    using node_failure_is_contained[OF sample_setup_n2, where envs = sample_envs and n = 1
        and e = "SSHError ''Connection refused''" and jl = sample_json_loads and rc = None
        and commands = sample_commands] c u
    by simp
  have l: "connect_result (sample_envs_lost 0) (JStr ''10.0.0.1'', JStr ''ubuntu'', JNull) = None"
    "close_result (sample_envs_lost 0) = None"
    by (simp_all add: sample_envs_lost_def sample_env_lost_def)
  have a0: "analysis_dict sample_json_loads (str_or None ''Check for errors'') (sample_envs_lost 0) 0
              (sample_commands ! 0) =
              Some [(''extracted_value'', JStr ''0.15''), (''condition_met'', JBool False),
                    (''summary'', JStr ''load is normal''), (''severity'', JStr ''info'')]"
    by (simp add: analysis_dict_def sample_commands_def sample_envs_lost_def sample_env_lost_def
          dict_get_simps analyze_output_with_llm_def analyze_body_def py_strip_def is_space_def
          starts_with_def sample_json_loads_def)
  have all: "\<forall>j<1. analysis_dict sample_json_loads (str_or None ''Check for errors'')
                      (sample_envs_lost 0) j (sample_commands ! j) \<noteq> None"
    using a0 by simp
  have ci: "sample_commands ! 1 = JObj [(''cmd'', JStr ''df -h''), (''logic'', JStr ''alert if usage > 80%'')]"
    "1 < length sample_commands"
    by (simp_all add: sample_commands_def)
  have rr: "run_result (sample_envs_lost 0) 1
              (dict_get [(''cmd'', JStr ''df -h''), (''logic'', JStr ''alert if usage > 80%'')] ''cmd'' JNull)
            = RunRaises 2 (SSHError ''Connection lost'')"
    by (simp add: sample_envs_lost_def sample_env_lost_def)
  have first: "fst (run_commands sample_json_loads (str_or None ''Check for errors'') (sample_envs_lost 0)
                 (JStr ''n1'') 0 (take 1 sample_commands)) =
               [step_event (Executing (JStr ''uptime'')) None,
                step_event Output_received (Some Success),
                step_event Analyzing None,
                step_event (Condition_not_met (JStr ''load is normal'')) (Some Success)]"
    using command_step_ok[OF a0, of "JStr ''n1''"]
    by (simp add: sample_commands_def spec_command_events_def cmd_str_of_def dict_get_simps)
  note T = node_failure_is_contained[OF sample_setup_n1, where envs = sample_envs_lost and n = 0
        and e = "SSHError ''Connection lost''" and jl = sample_json_loads and rc = None
        and commands = sample_commands and i = 1 and d = 2
        and cc = "[(''cmd'', JStr ''df -h''), (''logic'', JStr ''alert if usage > 80%'')]"]
  have w2: "process_node sample_json_loads None no_known_nodes (sample_envs_lost 0) node_n1 sample_commands =
         (step_event (Connecting (JStr ''n1'')) None # step_event (Connected (JStr ''n1'')) (Some Success) #
            fst (run_commands sample_json_loads (str_or None ''Check for errors'') (sample_envs_lost 0)
                   (JStr ''n1'') 0 (take 1 sample_commands)) @
            [step_event (Executing (dict_get [(''cmd'', JStr ''df -h''),
               (''logic'', JStr ''alert if usage > 80%'')] ''cmd'' JNull)) None,
             error_event (Failed (JStr (str_exn (SSHError ''Connection lost''))))], Returned) \<and>
       length (filter is_executing (fst (process_node sample_json_loads None no_known_nodes
          (sample_envs_lost 0) node_n1 sample_commands))) = Suc 1"
    using T[THEN conjunct2, THEN conjunct2, THEN conjunct1, rule_format,
            OF c l(1) l(2) ci(2) all[rule_format] ci(1) rr] .
  from w1 w2 first show ?thesis by (simp add: dict_get_simps record_event_simps)
qed

section \<open>Properties of the consumer loop\<close>

lemma step_length [simp]: "length (tasks (step a s)) = length (tasks s)"
  by (cases a) (auto split: list.splits prod.splits)

lemma step_fates: "map snd (tasks (step a s)) = map snd (tasks s)"
proof (cases a)
  case (Put i)
  show ?thesis
  proof (cases "i < length (tasks s)")
    case True
    obtain p f where t: "tasks s ! i = (p, f)" by (cases "tasks s ! i")
    have "map snd ((tasks s)[i := (tl p, f)]) = (map snd (tasks s))[i := f]"
      by (simp add: map_update)
    also have "\<dots> = map snd (tasks s)"
      using True t by (simp add: list_update_same_conv)
    finally show ?thesis using Put True t by (cases p) simp_all
  next
    case False
    then show ?thesis using Put by simp
  qed
qed (auto split: list.splits)

lemma filter_update_mono:
  "i < length xs \<Longrightarrow> \<not> P (xs ! i) \<Longrightarrow> length (filter P xs) \<le> length (filter P (xs[i := y]))"
proof (induction xs arbitrary: i)
  case Nil
  then show ?case by simp
next
  case (Cons x xs)
  then show ?case by (cases i) auto
qed

lemma step_done_mono:
  "length (filter task_done (tasks s)) \<le> length (filter task_done (tasks (step a s)))"
proof (cases a)
  case (Put i)
  show ?thesis
  proof (cases "i < length (tasks s)")
    case True
    obtain p f where t: "tasks s ! i = (p, f)" by (cases "tasks s ! i")
    show ?thesis
    proof (cases p)
      case Nil
      then show ?thesis using Put True t by simp
    next
      case (Cons e es)
      then have "\<not> task_done (tasks s ! i)" using t by (simp add: task_done_def)
      with True have "length (filter task_done (tasks s)) \<le>
                      length (filter task_done ((tasks s)[i := (es, f)]))"
        by (rule filter_update_mono[where P = task_done])
      then show ?thesis
        using Put True t Cons by simp
    qed
  next
    case False
    then show ?thesis using Put by simp
  qed
qed (auto split: list.splits)

lemma counted_init: "counted (init_state ts)"
  by (simp add: counted_def init_state_def)

lemma counted_step: "counted s \<Longrightarrow> counted (step a s)"
proof (cases a)
  case Timeout
  then show ?thesis by (simp add: counted_def)
next
  case (Put i)
  assume c: "counted s"
  have "finished_tasks (step a s) = finished_tasks s"
    using Put by (auto split: list.splits prod.splits)
  with c step_done_mono[of s a] show ?thesis by (simp add: counted_def)
next
  case Get
  assume c: "counted s"
  then show ?thesis using Get by (auto simp: counted_def split: list.splits)
qed

lemma consumer_loop_invariant:
  assumes "consumer_loop sch s = Some s'" and "P s" and "\<And>a s. P s \<Longrightarrow> P (step a s)"
  shows "P s'"
  using assms(1,2)
proof (induction sch arbitrary: s)
  case Nil
  then show ?case by (simp split: if_splits)
next
  case (Cons a sch)
  show ?case
  proof (cases "finished_tasks s < length (tasks s)")
    case True
    with Cons.prems have "consumer_loop sch (step a s) = Some s'" by simp
    from Cons.IH[OF this assms(3)[OF Cons.prems(2)]] show ?thesis .
  next
    case False
    with Cons.prems show ?thesis by simp
  qed
qed

lemma consumer_loop_exit:
  "consumer_loop sch s = Some s' \<Longrightarrow> \<not> finished_tasks s' < length (tasks s')"
  by (induction sch arbitrary: s) (auto split: if_splits)

lemma consumer_loop_all_done:
  assumes "consumer_loop sch (init_state ts) = Some s'"
  shows "list_all task_done (tasks s')"
proof -
  have c: "counted s'"
    by (rule consumer_loop_invariant[OF assms counted_init counted_step])
  from consumer_loop_exit[OF assms] c have "length (tasks s') \<le> length (filter task_done (tasks s'))"
    by (simp add: counted_def)
  then have "length (filter task_done (tasks s')) = length (tasks s')"
    using length_filter_le[of task_done "tasks s'"] by simp
  then show ?thesis
    by (metis filter_True length_filter_less less_irrefl list_all_iff)
qed






lemma stream_execution_run:
  assumes "executions db xid = Some execution" and "rules db (rule_id execution) = Some rule"
  shows "stream_execution jl known envs sch xid db =
           (case consumer_loop sch (init_state (rule_tasks jl known envs rule)) of
              None \<Rightarrow> None
            | Some s \<Rightarrow>
                Some (map Data (yielded s @ queue s) @ [Data complete_event],
                      db\<lparr>executions := (executions db)(xid \<mapsto> finalized execution (timeline s @ queue s))\<rparr>))"
  using assms by (simp add: stream_execution_def rule_tasks_def drain_def finalized_def split: option.splits)



lemma sample_parallel_run:
  "streamed (stream_execution sample_json_loads no_known_nodes sample_envs sample_schedule 1
      (sample_db (sample_rule [node_n1, node_n2] sample_commands ''parallel''))) =
   Some (map Data
     [step_event (Connecting (JStr ''n1'')) None,
      step_event (Connecting (JStr ''n2'')) None,
      step_event (Connected (JStr ''n1'')) (Some Success),
      error_event (Failed (JStr ''Connection refused'')),
      step_event (Executing (JStr ''uptime'')) None,
      step_event Output_received (Some Success),
      step_event Analyzing None,
      step_event (Condition_not_met (JStr ''load is normal'')) (Some Success),
      step_event (Executing (JStr ''df -h'')) None,
      step_event Output_received (Some Success),
      step_event Analyzing None,
      step_event (Condition_met (JStr ''disk usage is 91 percent'')) (Some Warning),
      incident_event (Incident_raised (JStr ''disk usage is 91 percent'')) (JStr ''critical'') (JStr ''n1'')
        (JObj [(''extracted_value'', JStr ''91''), (''condition_met'', JBool True),
               (''summary'', JStr ''disk usage is 91 percent''), (''severity'', JStr ''critical'')]),
      complete_event])"
  by code_simp

lemma sample_db_lookup:
  "executions (sample_db rule) 1 =
     Some \<lparr>rule_id = 1, status = EXECUTING, timeline_json = [], completed = False\<rparr>"
  "rules (sample_db rule) (rule_id \<lparr>rule_id = 1, status = EXECUTING, timeline_json = [],
      completed = False\<rparr>) = Some rule"
  by (simp_all add: sample_db_def)


section \<open>The status of a finished run\<close>

lemma process_results_flags:
  "process_results rs (a, b) = (a \<and> list_all succeeded rs, b \<or> list_ex succeeded rs)"
  by (induction rs arbitrary: a b) (auto simp: succeeded_def)

lemma run_runbook_commands_flags:
  "run_runbook_commands world servers cs (a, b) =
     (a \<and> list_all succeeded (runbook_results world servers cs),
      b \<or> list_ex succeeded (runbook_results world servers cs))"
proof (induction cs arbitrary: a b)
  case Nil
  then show ?case by (simp add: runbook_results_def)
next
  case (Cons c cs)
  show ?case
    by (simp add: process_results_flags Cons.IH runbook_results_def conj_assoc disj_assoc)
qed

text \<open>
  C1 (as the code behaves). The streaming orchestrator does not classify: the row of a
  finished run always gets the status COMPLETED, whatever events the nodes
  emitted. The three-way classification exists in the runbook executor only,
  over the results of all (command, server) pairs: FAILED when the runbook,
  its servers or its commands are missing; otherwise SUCCESS when every result
  has status SUCCESS, PARTIAL when some but not all have, FAILED when none has.
\<close>

theorem finished_run_status:
  "(stream_execution jl known envs sch xid db = Some (out, db') \<longrightarrow>
    executions db xid = Some execution \<longrightarrow> rules db (rule_id execution) = Some rule \<longrightarrow>
      stored_status (Some (out, db')) xid = Some COMPLETED) \<and>
   execute_runbook world runbook_found servers commands =
     (if \<not> runbook_found \<or> servers = [] \<or> commands = [] then ES_FAILED
      else if list_all succeeded (runbook_results world servers commands) then ES_SUCCESS
      else if list_ex succeeded (runbook_results world servers commands) then ES_PARTIAL
      else ES_FAILED)"
proof (intro conjI impI)
  assume "stream_execution jl known envs sch xid db = Some (out, db')"
    and "executions db xid = Some execution" and "rules db (rule_id execution) = Some rule"
  then show "stored_status (Some (out, db')) xid = Some COMPLETED"
    by (auto simp: stream_execution_run stored_status_def finalized_def split: option.splits)
next
  show "execute_runbook world runbook_found servers commands =
     (if \<not> runbook_found \<or> servers = [] \<or> commands = [] then ES_FAILED
      else if list_all succeeded (runbook_results world servers commands) then ES_SUCCESS
      else if list_ex succeeded (runbook_results world servers commands) then ES_PARTIAL
      else ES_FAILED)"
    by (simp add: execute_runbook_def run_runbook_commands_flags)
qed

theorem finished_run_status_witness:
  "stored_status (stream_execution sample_json_loads no_known_nodes sample_envs sample_schedule 1
     (sample_db (sample_rule [node_n1, node_n2] sample_commands ''parallel''))) 1 = Some COMPLETED \<and>
   execute_runbook sample_world True sample_servers sample_runbook_commands = ES_PARTIAL"
proof -
  from sample_parallel_run obtain out db' where
    run: "stream_execution sample_json_loads no_known_nodes sample_envs sample_schedule 1
            (sample_db (sample_rule [node_n1, node_n2] sample_commands ''parallel'')) = Some (out, db')"
    by (auto simp: streamed_def)
  have r: "runbook_results sample_world sample_servers sample_runbook_commands =
       [\<lparr>r_status = ''SUCCESS'', r_stdout = ''up 5 days'', r_stderr = [], r_exit_code = Some 0\<rparr>,
        \<lparr>r_status = ''FAILED'', r_stdout = [], r_stderr = ''not found'', r_exit_code = Some 2\<rparr>]"
    by code_simp
  note T = finished_run_status[of sample_json_loads no_known_nodes sample_envs sample_schedule 1
      "sample_db (sample_rule [node_n1, node_n2] sample_commands ''parallel'')" out db'
      "\<lparr>rule_id = 1, status = EXECUTING, timeline_json = [], completed = False\<rparr>"
      "sample_rule [node_n1, node_n2] sample_commands ''parallel''"
      sample_world True sample_servers sample_runbook_commands]
  have ne: "sample_servers \<noteq> []" "sample_runbook_commands \<noteq> []"
    by (simp_all add: sample_servers_def sample_runbook_commands_def)
  have st: "stored_status (Some (out, db')) 1 = Some COMPLETED"
    using T[THEN conjunct1, rule_format, OF run sample_db_lookup] .
  have rb: "execute_runbook sample_world True sample_servers sample_runbook_commands = ES_PARTIAL"
    using T[THEN conjunct2] by (simp add: r ne succeeded_def)
  show ?thesis unfolding run using st rb by simp
qed

theorem failed_run_completed_counterexample:
  "streamed (stream_execution sample_json_loads no_known_nodes sample_envs_down
      [Put 0, Put 1, Put 0, Put 1, Get, Get, Get, Get, Timeout] 1
      (sample_db (sample_rule [node_n1, node_n2] sample_commands ''parallel''))) =
     Some [Data (step_event (Connecting (JStr ''n1'')) None),
           Data (step_event (Connecting (JStr ''n2'')) None),
           Data (error_event (Failed (JStr ''Connection refused''))),
           Data (error_event (Failed (JStr ''Connection refused''))),
           Data complete_event] \<and>
   stored_status (stream_execution sample_json_loads no_known_nodes sample_envs_down
      [Put 0, Put 1, Put 0, Put 1, Get, Get, Get, Get, Timeout] 1
      (sample_db (sample_rule [node_n1, node_n2] sample_commands ''parallel''))) 1 = Some COMPLETED \<and>
   COMPLETED \<noteq> FAILED"
  by code_simp

section \<open>Plans without nodes and commands that never return\<close>

lemma consumer_loop_exited:
  "\<not> finished_tasks s < length (tasks s) \<Longrightarrow> consumer_loop sch s = Some s"
  by (cases sch) simp_all

lemma idle_step:
  "step a (init_state [([], Returned)]) =
     (if a = Timeout then (init_state [([], Returned)])\<lparr>finished_tasks := 1\<rparr>
      else init_state [([], Returned)])"
proof (cases a)
  case (Put i)
  then show ?thesis by (cases i) (simp_all add: init_state_def)
qed (simp_all add: init_state_def task_done_def)

lemma idle_loop:
  "consumer_loop sch (init_state [([], Returned)]) = None \<or>
   consumer_loop sch (init_state [([], Returned)]) =
     Some ((init_state [([], Returned)])\<lparr>finished_tasks := 1\<rparr>)"
proof (induction sch)
  case Nil
  then show ?case by (simp add: init_state_def)
next
  case (Cons a sch)
  have l: "finished_tasks (init_state [([], Returned)]) < length (tasks (init_state [([], Returned)]))"
    by (simp add: init_state_def)
  show ?case
  proof (cases "a = Timeout")
    case True
    have "consumer_loop sch ((init_state [([], Returned)])\<lparr>finished_tasks := 1\<rparr>) =
            Some ((init_state [([], Returned)])\<lparr>finished_tasks := 1\<rparr>)"
      by (rule consumer_loop_exited) (simp add: init_state_def)
    then show ?thesis using l True by (simp add: idle_step del: step.simps)
  next
    case False
    then show ?thesis using l Cons.IH by (simp add: idle_step del: step.simps)
  qed
qed

lemma idle_loop_timeout:
  "consumer_loop (Timeout # sch) (init_state [([], Returned)]) =
     Some ((init_state [([], Returned)])\<lparr>finished_tasks := 1\<rparr>)"
proof -
  have "consumer_loop sch ((init_state [([], Returned)])\<lparr>finished_tasks := 1\<rparr>) =
          Some ((init_state [([], Returned)])\<lparr>finished_tasks := 1\<rparr>)"
    by (rule consumer_loop_exited) (simp add: init_state_def)
  then show ?thesis by (simp add: idle_step init_state_def task_done_def)
qed

lemma rule_tasks_no_nodes:
  "nodes_json rule = [] \<Longrightarrow>
   rule_tasks jl known envs rule =
     (if str_or (execution_mode rule) ''sequential'' = ''parallel'' then [] else [([], Returned)])"
  by (simp add: rule_tasks_def spawn_tasks_def)

lemma no_nodes_loop:
  assumes "nodes_json rule = []"
  shows "consumer_loop sch (init_state (rule_tasks jl known envs rule)) = None \<or>
         (\<exists>s. consumer_loop sch (init_state (rule_tasks jl known envs rule)) = Some s \<and>
              yielded s = [] \<and> queue s = [] \<and> timeline s = [])"
proof (cases "str_or (execution_mode rule) ''sequential'' = ''parallel''")
  case True
  then have "rule_tasks jl known envs rule = []" using assms by (simp add: rule_tasks_no_nodes)
  moreover have "consumer_loop sch (init_state []) = Some (init_state [])"
    by (rule consumer_loop_exited) (simp add: init_state_def)
  ultimately show ?thesis by (simp add: init_state_def)
next
  case False
  then have "rule_tasks jl known envs rule = [([], Returned)]"
    using assms by (simp add: rule_tasks_no_nodes)
  with idle_loop[of sch] show ?thesis by (auto simp: init_state_def)
qed

lemma no_nodes_loop_timeout:
  assumes "nodes_json rule = []"
  shows "\<exists>s. consumer_loop (Timeout # sch) (init_state (rule_tasks jl known envs rule)) = Some s \<and>
              yielded s = [] \<and> queue s = [] \<and> timeline s = []"
proof (cases "str_or (execution_mode rule) ''sequential'' = ''parallel''")
  case True
  then have "rule_tasks jl known envs rule = []" using assms by (simp add: rule_tasks_no_nodes)
  moreover have "consumer_loop (Timeout # sch) (init_state []) = Some (init_state [])"
    by (rule consumer_loop_exited) (simp add: init_state_def)
  ultimately show ?thesis by (simp add: init_state_def)
next
  case False
  then have "rule_tasks jl known envs rule = [([], Returned)]"
    using assms by (simp add: rule_tasks_no_nodes)
  with idle_loop_timeout[of sch] show ?thesis by (simp add: init_state_def)
qed

lemma process_node_no_commands:
  assumes "node_setup known node = Inr (name, host, user, cred)"
    and "credential_check cred = None" and "connect_result env (host, user, cred) = None"
    and "close_result env = None"
  shows "process_node jl rc known env node [] =
           ([step_event (Connecting name) None, step_event (Connected name) (Some Success)], Returned)"
  using assms(2-4)
  by (simp add: process_node_setup[OF assms(1)] try_except_def try_block_def Let_def gen_simps
        dict_get_simps)

text \<open>
  C3 (as the code behaves). Nothing validates the plan. \<^verbatim>\<open>execute_rule\<close> stores an execution
  row for every rule that exists, whatever its node list. For a rule with an
  empty node list \<^verbatim>\<open>stream_execution\<close> runs no node worker and rejects nothing:
  whenever the run finishes (and it does once the consumer's poll has timed out)
  the stream is the single complete event, and the row is stored with the
  status COMPLETED and an empty timeline. With an empty command list the worker
  of each node still runs: it connects and emits the connecting and connected
  steps.
\<close>

theorem empty_plan_completes:
  assumes "executions db xid = Some execution"
    and "rules db (rule_id execution) = Some rule"
    and "nodes_json rule = []"
  shows
   "(stream_execution jl known envs sch xid db = None \<or>
     stream_execution jl known envs sch xid db =
       Some ([Data complete_event],
             db\<lparr>executions := (executions db)(xid \<mapsto> finalized execution [])\<rparr>)) \<and>
    stream_execution jl known envs (Timeout # sch) xid db =
       Some ([Data complete_event],
             db\<lparr>executions := (executions db)(xid \<mapsto> finalized execution [])\<rparr>) \<and>
    (rules db rid = Some r \<longrightarrow>
       execute_rule rid db =
         Inr (next_id db,
              db\<lparr>executions := (executions db)(next_id db \<mapsto>
                    \<lparr>rule_id = rid, status = EXECUTING, timeline_json = [], completed = False\<rparr>),
                 next_id := Suc (next_id db)\<rparr>)) \<and>
    (node_setup known node = Inr (name, host, user, cred) \<longrightarrow> credential_check cred = None \<longrightarrow>
     connect_result env (host, user, cred) = None \<longrightarrow> close_result env = None \<longrightarrow>
       process_node jl rc known env node [] =
         ([step_event (Connecting name) None, step_event (Connected name) (Some Success)], Returned))"
proof (intro conjI impI)
  from no_nodes_loop[OF assms(3), of sch jl known envs]
  show "stream_execution jl known envs sch xid db = None \<or>
     stream_execution jl known envs sch xid db =
       Some ([Data complete_event],
             db\<lparr>executions := (executions db)(xid \<mapsto> finalized execution [])\<rparr>)"
    by (auto simp: stream_execution_run[OF assms(1,2)])
next
  from no_nodes_loop_timeout[OF assms(3), of sch jl known envs]
  show "stream_execution jl known envs (Timeout # sch) xid db =
       Some ([Data complete_event],
             db\<lparr>executions := (executions db)(xid \<mapsto> finalized execution [])\<rparr>)"
    by (auto simp: stream_execution_run[OF assms(1,2)])
next
  assume "rules db rid = Some r"
  then show "execute_rule rid db =
         Inr (next_id db,
              db\<lparr>executions := (executions db)(next_id db \<mapsto>
                    \<lparr>rule_id = rid, status = EXECUTING, timeline_json = [], completed = False\<rparr>),
                 next_id := Suc (next_id db)\<rparr>)"
    by (simp add: execute_rule_def)
next
  assume "node_setup known node = Inr (name, host, user, cred)" "credential_check cred = None"
    "connect_result env (host, user, cred) = None" "close_result env = None"
  then show "process_node jl rc known env node [] =
         ([step_event (Connecting name) None, step_event (Connected name) (Some Success)], Returned)"
    by (rule process_node_no_commands)
qed

theorem empty_plan_completes_witness:
  "streamed (stream_execution sample_json_loads no_known_nodes sample_envs [Get, Timeout] 1
     (sample_db (sample_rule [] sample_commands ''sequential''))) = Some [Data complete_event] \<and>
   stored_status (stream_execution sample_json_loads no_known_nodes sample_envs [Get, Timeout] 1
     (sample_db (sample_rule [] sample_commands ''sequential''))) 1 = Some COMPLETED \<and>
   stored_timeline (stream_execution sample_json_loads no_known_nodes sample_envs [Get, Timeout] 1
     (sample_db (sample_rule [] sample_commands ''sequential''))) 1 = Some []"
proof -
  have n: "nodes_json (sample_rule [] sample_commands ''sequential'') = []"
    by (simp add: sample_rule_def)
  have ne: "stream_execution sample_json_loads no_known_nodes sample_envs [Get, Timeout] 1
     (sample_db (sample_rule [] sample_commands ''sequential'')) \<noteq> None"
    by code_simp
  from empty_plan_completes[OF sample_db_lookup n, THEN conjunct1,
      of sample_json_loads no_known_nodes sample_envs "[Get, Timeout]"] ne
  have "stream_execution sample_json_loads no_known_nodes sample_envs [Get, Timeout] 1
     (sample_db (sample_rule [] sample_commands ''sequential'')) =
       Some ([Data complete_event],
             (sample_db (sample_rule [] sample_commands ''sequential''))\<lparr>executions :=
                (executions (sample_db (sample_rule [] sample_commands ''sequential'')))(1 \<mapsto>
                   finalized \<lparr>rule_id = 1, status = EXECUTING, timeline_json = [], completed = False\<rparr> [])\<rparr>)"
    by blast
  then show ?thesis
    by (simp add: streamed_def stored_status_def stored_timeline_def finalized_def)
qed

theorem empty_plan_counterexample:
  "streamed (stream_execution sample_json_loads no_known_nodes sample_envs [] 1
     (sample_db (sample_rule [] sample_commands ''parallel''))) = Some [Data complete_event] \<and>
   ev_type complete_event \<noteq> Error \<and>
   stored_status (stream_execution sample_json_loads no_known_nodes sample_envs [] 1
     (sample_db (sample_rule [] sample_commands ''parallel''))) 1 = Some COMPLETED"
  by code_simp

lemma hung_never_exits_aux:
  "counted s \<Longrightarrow> Hung \<in> set (map snd (tasks s)) \<Longrightarrow> consumer_loop sch s = None"
proof (induction sch arbitrary: s)
  case Nil
  from Nil(2) obtain t where t: "t \<in> set (tasks s)" "\<not> task_done t"
    by (auto simp: task_done_def)
  then have "length (filter task_done (tasks s)) < length (tasks s)"
    by (rule length_filter_less)
  with Nil(1) show ?case by (simp add: counted_def)
next
  case (Cons a sch)
  from Cons(3) obtain t where t: "t \<in> set (tasks s)" "\<not> task_done t"
    by (auto simp: task_done_def)
  then have "length (filter task_done (tasks s)) < length (tasks s)"
    by (rule length_filter_less)
  with Cons(2) have l: "finished_tasks s < length (tasks s)" by (simp add: counted_def)
  have "Hung \<in> set (map snd (tasks (step a s)))"
    using Cons(3) by (simp only: step_fates)
  from Cons.IH[OF counted_step[OF Cons(2)] this] l show ?case by simp
qed

lemma hung_never_exits:
  "Hung \<in> set (map snd ts) \<Longrightarrow> consumer_loop sch (init_state ts) = None"
  by (rule hung_never_exits_aux[OF counted_init]) (simp add: init_state_def)

text \<open>
  C4 (evidence of the defect). On a node whose first command never returns the
  worker puts the connecting, connected and executing steps and then waits
  forever: no timeout ends the wait and no error event follows. In sequential
  mode the runner never reaches the second node and, under every schedule, the
  consumer loop never ends, so the stream never gets its complete event. The
  same command under \<^verbatim>\<open>run_command\<close> ends with the timed-out result.
\<close>

theorem streaming_command_has_no_timeout:
  "process_node sample_json_loads None no_known_nodes (sample_envs_hang 0) node_n1 sample_commands =
     ([step_event (Connecting (JStr ''n1'')) None,
       step_event (Connected (JStr ''n1'')) (Some Success),
       step_event (Executing (JStr ''uptime'')) None], Hung) \<and>
   (\<forall>sch. stream_execution sample_json_loads no_known_nodes sample_envs_hang sch 1
            (sample_db (sample_rule [node_n1, node_n2] sample_commands ''sequential'')) = None) \<and>
   run_command (sample_ssh NeverReturns) ''uptime'' default_timeout =
     Inr \<lparr>r_status = ''FAILED'', r_stdout = [],
          r_stderr = ''Command timed out after 300 seconds'', r_exit_code = Some (- 1)\<rparr>"
proof (intro conjI allI)
  show "process_node sample_json_loads None no_known_nodes (sample_envs_hang 0) node_n1 sample_commands =
     ([step_event (Connecting (JStr ''n1'')) None,
       step_event (Connected (JStr ''n1'')) (Some Success),
       step_event (Executing (JStr ''uptime'')) None], Hung)"
    by code_simp
next
  fix sch
  have "map snd (rule_tasks sample_json_loads no_known_nodes sample_envs_hang
          (sample_rule [node_n1, node_n2] sample_commands ''sequential'')) = [Hung]"
    by code_simp
  then have "consumer_loop sch (init_state (rule_tasks sample_json_loads no_known_nodes sample_envs_hang
          (sample_rule [node_n1, node_n2] sample_commands ''sequential''))) = None"
    by (intro hung_never_exits) simp
  then show "stream_execution sample_json_loads no_known_nodes sample_envs_hang sch 1
            (sample_db (sample_rule [node_n1, node_n2] sample_commands ''sequential'')) = None"
    unfolding stream_execution_run[OF sample_db_lookup] by simp
next
  show "run_command (sample_ssh NeverReturns) ''uptime'' default_timeout =
     Inr \<lparr>r_status = ''FAILED'', r_stdout = [],
          r_stderr = ''Command timed out after 300 seconds'', r_exit_code = Some (- 1)\<rparr>"
    by code_simp
qed

section \<open>Order of the stream in sequential mode\<close>

lemma node_events_Cons:
  "node_events jl rc known envs cmds i (node # rest) =
     fst (process_node jl rc known (envs i) node cmds) # node_events jl rc known envs cmds (Suc i) rest"
  by (simp add: node_events_def)

lemma sequential_runner_blocks:
  "\<exists>m\<le>length nodes.
     fst (sequential_runner jl rc known envs cmds i nodes) =
       concat (node_events jl rc known envs cmds i (take m nodes)) \<and>
     ((\<forall>j<length nodes. snd (process_node jl rc known (envs (i + j)) (nodes ! j) cmds) = Returned)
        \<longrightarrow> m = length nodes)"
proof (induction nodes arbitrary: i)
  case Nil
  then show ?case by (simp add: node_events_def)
next
  case (Cons node rest)
  show ?case
  proof (cases "snd (process_node jl rc known (envs i) node cmds) = Returned")
    case True
    from Cons.IH[of "Suc i"] obtain m where m: "m \<le> length rest"
      "fst (sequential_runner jl rc known envs cmds (Suc i) rest) =
         concat (node_events jl rc known envs cmds (Suc i) (take m rest))"
      "(\<forall>j<length rest. snd (process_node jl rc known (envs (Suc i + j)) (rest ! j) cmds) = Returned)
         \<longrightarrow> m = length rest"
      by blast
    have a: "fst (sequential_runner jl rc known envs cmds i (node # rest)) =
          concat (node_events jl rc known envs cmds i (take (Suc m) (node # rest)))"
      using True m(2) by (simp add: sequential_runner_Cons node_events_Cons del: sequential_runner.simps)
    have b: "(\<forall>j<length (node # rest).
                snd (process_node jl rc known (envs (i + j)) ((node # rest) ! j) cmds) = Returned)
             \<longrightarrow> Suc m = length (node # rest)"
    proof
      assume all: "\<forall>j<length (node # rest).
                snd (process_node jl rc known (envs (i + j)) ((node # rest) ! j) cmds) = Returned"
      have "\<forall>j<length rest. snd (process_node jl rc known (envs (Suc i + j)) (rest ! j) cmds) = Returned"
      proof (intro allI impI)
        fix j assume "j < length rest"
        then show "snd (process_node jl rc known (envs (Suc i + j)) (rest ! j) cmds) = Returned"
          using all[rule_format, of "Suc j"] by simp
      qed
      with m(3) show "Suc m = length (node # rest)" by simp
    qed
    show ?thesis
    proof (intro exI[of _ "Suc m"] conjI)
      show "Suc m \<le> length (node # rest)" using m(1) by simp
      show "fst (sequential_runner jl rc known envs cmds i (node # rest)) =
          concat (node_events jl rc known envs cmds i (take (Suc m) (node # rest)))" by (rule a)
      show "(\<forall>j<length (node # rest).
                snd (process_node jl rc known (envs (i + j)) ((node # rest) ! j) cmds) = Returned)
             \<longrightarrow> Suc m = length (node # rest)" by (rule b)
    qed
  next
    case False
    have a: "fst (sequential_runner jl rc known envs cmds i (node # rest)) =
          concat (node_events jl rc known envs cmds i (take (Suc 0) (node # rest)))"
      using False by (simp add: sequential_runner_Cons node_events_Cons node_events_def
          del: sequential_runner.simps)
    have b: "\<not> (\<forall>j<length (node # rest).
                snd (process_node jl rc known (envs (i + j)) ((node # rest) ! j) cmds) = Returned)"
      using False by (auto intro: exI[of _ 0])
    show ?thesis
    proof (intro exI[of _ "Suc 0"] conjI)
      show "Suc 0 \<le> length (node # rest)" by simp
      show "fst (sequential_runner jl rc known envs cmds i (node # rest)) =
          concat (node_events jl rc known envs cmds i (take (Suc 0) (node # rest)))" by (rule a)
      show "(\<forall>j<length (node # rest).
                snd (process_node jl rc known (envs (i + j)) ((node # rest) ! j) cmds) = Returned)
             \<longrightarrow> Suc 0 = length (node # rest)" using b by blast
    qed
  qed
qed

text \<open>With one task, the events yielded, queued and still pending are the events of that task, in order.\<close>

lemma single_task_step:
  assumes "\<exists>p f. tasks s = [(p, f)] \<and> yielded s @ queue s @ p = evs"
  shows "\<exists>p f. tasks (step a s) = [(p, f)] \<and> yielded (step a s) @ queue (step a s) @ p = evs"
proof -
  from assms obtain p f where t: "tasks s = [(p, f)]" "yielded s @ queue s @ p = evs" by blast
  show ?thesis
  proof (cases a)
    case (Put i)
    show ?thesis
    proof (cases "i = 0")
      case True
      then show ?thesis using Put t by (cases p) auto
    next
      case False
      then show ?thesis using Put t by auto
    qed
  next
    case Get
    then show ?thesis using t by (cases "queue s") auto
  next
    case Timeout
    then show ?thesis using t by auto
  qed
qed

lemma single_task_stream:
  assumes "consumer_loop sch (init_state [(evs, f)]) = Some s'"
  shows "yielded s' @ queue s' = evs"
proof -
  have "\<exists>p f. tasks s' = [(p, f)] \<and> yielded s' @ queue s' @ p = evs"
  proof (rule consumer_loop_invariant[OF assms,
          where P = "\<lambda>s. \<exists>p f. tasks s = [(p, f)] \<and> yielded s @ queue s @ p = evs"])
    show "\<exists>p fa. tasks (init_state [(evs, f)]) = [(p, fa)] \<and>
            yielded (init_state [(evs, f)]) @ queue (init_state [(evs, f)]) @ p = evs"
      by (simp add: init_state_def)
  next
    fix a and s :: run_state
    assume "\<exists>p f. tasks s = [(p, f)] \<and> yielded s @ queue s @ p = evs"
    then show "\<exists>p f. tasks (step a s) = [(p, f)] \<and> yielded (step a s) @ queue (step a s) @ p = evs"
      by (rule single_task_step)
  qed
  then obtain p f' where t: "tasks s' = [(p, f')]" "yielded s' @ queue s' @ p = evs" by blast
  from consumer_loop_all_done[OF assms] t(1) have "p = []" by (simp add: task_done_def)
  with t(2) show ?thesis by simp
qed

lemma offset_Suc: "a < length xss \<Longrightarrow> offset xss (Suc a) = offset xss a + length (xss ! a)"
  by (simp add: offset_def take_Suc_conv_app_nth)

lemma offset_mono: "a \<le> b \<Longrightarrow> offset xss a \<le> offset xss b"
proof -
  assume "a \<le> b"
  then have "take b xss = take a xss @ take (b - a) (drop a xss)"
    by (metis le_add_diff_inverse take_add)
  then show ?thesis by (simp add: offset_def)
qed

lemma concat_nth_block:
  assumes "a < length xss" and "k < length (xss ! a)"
  shows "concat xss ! (offset xss a + k) = xss ! a ! k"
proof -
  have "xss = take a xss @ (xss ! a) # drop (Suc a) xss"
    using assms(1) by (simp add: id_take_nth_drop)
  then have "concat xss = concat (take a xss) @ (xss ! a) @ concat (drop (Suc a) xss)"
    by (metis concat.simps(2) concat_append)
  then show ?thesis using assms(2) by (simp add: offset_def nth_append)
qed

lemma block_positions:
  assumes "a < b" and "b < length xss" and "ka < length (xss ! a)" and "kb < length (xss ! b)"
  shows "(map Data (concat xss) @ [Data complete_event]) ! (offset xss a + ka) = Data (xss ! a ! ka)"
    and "(map Data (concat xss) @ [Data complete_event]) ! (offset xss b + kb) = Data (xss ! b ! kb)"
    and "offset xss a + ka < offset xss b + kb"
proof -
  have la: "a < length xss" using assms(1,2) by simp
  have lt: "\<And>c k. c < length xss \<Longrightarrow> k < length (xss ! c) \<Longrightarrow> offset xss c + k < length (concat xss)"
  proof -
    fix c k assume c: "c < length xss" "k < length (xss ! c)"
    have "offset xss c + length (xss ! c) = offset xss (Suc c)" using c(1) by (simp add: offset_Suc)
    also have "\<dots> \<le> offset xss (length xss)" using c(1) by (intro offset_mono) simp
    also have "\<dots> = length (concat xss)" by (simp add: offset_def)
    finally show "offset xss c + k < length (concat xss)" using c(2) by simp
  qed
  show "(map Data (concat xss) @ [Data complete_event]) ! (offset xss a + ka) = Data (xss ! a ! ka)"
    using lt[OF la assms(3)] concat_nth_block[OF la assms(3)] by (simp add: nth_append)
  show "(map Data (concat xss) @ [Data complete_event]) ! (offset xss b + kb) = Data (xss ! b ! kb)"
    using lt[OF assms(2,4)] concat_nth_block[OF assms(2,4)] by (simp add: nth_append)
  have "offset xss a + length (xss ! a) = offset xss (Suc a)" using la by (simp add: offset_Suc)
  also have "\<dots> \<le> offset xss b" using assms(1) by (intro offset_mono) simp
  finally show "offset xss a + ka < offset xss b + kb" using assms(3) by simp
qed

text \<open>
  C7. In sequential mode (every mode other than "parallel") the stream of a
  finished run is the events of the worker of the first node, then those of the
  second, and so on, for the nodes the runner visited (all of them when every
  worker returns), followed by the complete event. So for nodes \<open>a\<close> before \<open>b\<close>
  every event of \<open>a\<close> stands at an earlier position of the stream than every
  event of \<open>b\<close>.
\<close>

theorem sequential_nodes_in_order:
  assumes "stream_execution jl known envs sch xid db = Some (out, db')"
    and "executions db xid = Some execution"
    and "rules db (rule_id execution) = Some rule"
    and "str_or (execution_mode rule) ''sequential'' \<noteq> ''parallel''"
  shows "\<exists>m blocks. m \<le> length (nodes_json rule) \<and>
           blocks = node_events jl (condition rule) known envs (commands_of rule) 0
                      (take m (nodes_json rule)) \<and>
           out = map Data (concat blocks) @ [Data complete_event] \<and>
           ((\<forall>j<length (nodes_json rule).
               snd (process_node jl (condition rule) known (envs j) (nodes_json rule ! j)
                      (commands_of rule)) = Returned) \<longrightarrow> m = length (nodes_json rule)) \<and>
           (\<forall>a b ka kb. a < b \<longrightarrow> b < length blocks \<longrightarrow> ka < length (blocks ! a) \<longrightarrow>
               kb < length (blocks ! b) \<longrightarrow>
                 out ! (offset blocks a + ka) = Data (blocks ! a ! ka) \<and>
                 out ! (offset blocks b + kb) = Data (blocks ! b ! kb) \<and>
                 offset blocks a + ka < offset blocks b + kb)"
proof -
  let ?run = "sequential_runner jl (condition rule) known envs (commands_of rule) 0 (nodes_json rule)"
  have ts: "rule_tasks jl known envs rule = [(fst ?run, snd ?run)]"
    using assms(4) by (simp add: rule_tasks_def spawn_tasks_def)
  from assms(1) obtain s where
    loop: "consumer_loop sch (init_state [(fst ?run, snd ?run)]) = Some s"
    and out: "out = map Data (yielded s @ queue s) @ [Data complete_event]"
    by (auto simp: stream_execution_run[OF assms(2,3)] ts split: option.splits)
  from single_task_stream[OF loop] out have o: "out = map Data (fst ?run) @ [Data complete_event]"
    by simp
  from sequential_runner_blocks[of "nodes_json rule" jl "condition rule" known envs "commands_of rule" 0]
  obtain m where m: "m \<le> length (nodes_json rule)"
    "fst ?run = concat (node_events jl (condition rule) known envs (commands_of rule) 0
                          (take m (nodes_json rule)))"
    "(\<forall>j<length (nodes_json rule).
        snd (process_node jl (condition rule) known (envs j) (nodes_json rule ! j)
               (commands_of rule)) = Returned) \<longrightarrow> m = length (nodes_json rule)"
    by auto
  let ?blocks = "node_events jl (condition rule) known envs (commands_of rule) 0 (take m (nodes_json rule))"
  have pos: "\<forall>a b ka kb. a < b \<longrightarrow> b < length ?blocks \<longrightarrow> ka < length (?blocks ! a) \<longrightarrow>
               kb < length (?blocks ! b) \<longrightarrow>
                 out ! (offset ?blocks a + ka) = Data (?blocks ! a ! ka) \<and>
                 out ! (offset ?blocks b + kb) = Data (?blocks ! b ! kb) \<and>
                 offset ?blocks a + ka < offset ?blocks b + kb"
    unfolding o m(2) using block_positions[of _ _ ?blocks] by blast
  from m(1) m(3) o m(2) pos show ?thesis by auto
qed

lemma sample_sequential_run:
  "streamed (stream_execution sample_json_loads no_known_nodes sample_envs sample_schedule_seq 1
      (sample_db (sample_rule [node_n1, node_n2] sample_commands ''sequential''))) =
   Some (map Data (sample_events_n1 @ sample_events_n2) @ [Data complete_event])"
  by code_simp

lemma sample_node_events:
  "node_events sample_json_loads None no_known_nodes sample_envs sample_commands 0 [node_n1, node_n2] =
     [sample_events_n1, sample_events_n2]"
  by code_simp

lemma sample_nodes_return:
  "snd (process_node sample_json_loads None no_known_nodes (sample_envs 0) node_n1 sample_commands) = Returned"
  "snd (process_node sample_json_loads None no_known_nodes (sample_envs 1) node_n2 sample_commands) = Returned"
  by code_simp+

theorem sequential_nodes_in_order_witness:
  "\<exists>out. streamed (stream_execution sample_json_loads no_known_nodes sample_envs sample_schedule_seq 1
             (sample_db (sample_rule [node_n1, node_n2] sample_commands ''sequential''))) = Some out \<and>
         out = map Data (sample_events_n1 @ sample_events_n2) @ [Data complete_event] \<and>
         out ! 10 = Data (sample_events_n1 ! 10) \<and>
         out ! 11 = Data (sample_events_n2 ! 0)"
proof -
  let ?rule = "sample_rule [node_n1, node_n2] sample_commands ''sequential''"
  from sample_sequential_run obtain out db' where
    run: "stream_execution sample_json_loads no_known_nodes sample_envs sample_schedule_seq 1
            (sample_db ?rule) = Some (out, db')"
    by (auto simp: streamed_def)
  have mode: "str_or (execution_mode ?rule) ''sequential'' \<noteq> ''parallel''"
    by (simp add: sample_rule_def str_or_def)
  have r: "nodes_json ?rule = [node_n1, node_n2]" "condition ?rule = None"
    "commands_of ?rule = sample_commands"
    by (simp_all add: sample_rule_def commands_of_def sample_commands_def)
  have ret: "\<forall>j<length (nodes_json ?rule).
               snd (process_node sample_json_loads (condition ?rule) no_known_nodes (sample_envs j)
                      (nodes_json ?rule ! j) (commands_of ?rule)) = Returned"
  proof (intro allI impI)
    fix j assume "j < length (nodes_json ?rule)"
    then consider "j = 0" | "j = 1" unfolding r by (cases j) auto
    then show "snd (process_node sample_json_loads (condition ?rule) no_known_nodes (sample_envs j)
                      (nodes_json ?rule ! j) (commands_of ?rule)) = Returned"
      unfolding r using sample_nodes_return by cases simp_all
  qed
  from sequential_nodes_in_order[OF run sample_db_lookup mode] obtain m blocks where
    h: "m \<le> length (nodes_json ?rule)"
       "blocks = node_events sample_json_loads (condition ?rule) no_known_nodes sample_envs
                   (commands_of ?rule) 0 (take m (nodes_json ?rule))"
       "out = map Data (concat blocks) @ [Data complete_event]"
       "(\<forall>j<length (nodes_json ?rule).
           snd (process_node sample_json_loads (condition ?rule) no_known_nodes (sample_envs j)
                  (nodes_json ?rule ! j) (commands_of ?rule)) = Returned) \<longrightarrow>
        m = length (nodes_json ?rule)"
       "\<forall>a b ka kb. a < b \<longrightarrow> b < length blocks \<longrightarrow> ka < length (blocks ! a) \<longrightarrow>
               kb < length (blocks ! b) \<longrightarrow>
                 out ! (offset blocks a + ka) = Data (blocks ! a ! ka) \<and>
                 out ! (offset blocks b + kb) = Data (blocks ! b ! kb) \<and>
                 offset blocks a + ka < offset blocks b + kb"
    by blast
  from h(4) ret have m: "m = 2" unfolding r by simp
  have b: "blocks = [sample_events_n1, sample_events_n2]"
    unfolding h(2) m r using sample_node_events by simp
  have len: "length sample_events_n1 = 11" "length sample_events_n2 = 2"
    by (simp_all add: sample_events_n1_def sample_events_n2_def)
  from h(5)[rule_format, of 0 1 10 0] have
    "out ! (offset blocks 0 + 10) = Data (sample_events_n1 ! 10) \<and>
     out ! (offset blocks 1 + 0) = Data (sample_events_n2 ! 0)"
    unfolding b by (simp add: len)
  then have p: "out ! 10 = Data (sample_events_n1 ! 10)" "out ! 11 = Data (sample_events_n2 ! 0)"
    unfolding b by (simp_all add: offset_def len)
  have o: "out = map Data (sample_events_n1 @ sample_events_n2) @ [Data complete_event]"
    unfolding h(3) b by simp
  show ?thesis
    unfolding run using o p by (simp add: streamed_def)
qed

section \<open>Properties of node name resolution\<close>















end
